theory Spec2Isabelle
  imports Complex_Main "HOL-Library.Multiset" "HOL-Library.AList"
begin

section \<open>JSON values and the Python operations the program applies to them\<close>

text \<open>
  The program reads decoded JSON. A decoded object is a Python dict: its items are kept
  here in insertion order, with one entry per key (a lookup takes the first entry of a
  key). JSON numbers are modelled as integers; \<open>JNull\<close> is Python's \<open>None\<close>.
\<close>

datatype json =
    JNull
  | JBool bool
  | JInt int
  | JStr string
  | JList "json list"
  | JDict "(string \<times> json) list"

datatype error = AttributeError | TypeError | AssertionError | ValueError

definition ebind :: "error + 'a \<Rightarrow> ('a \<Rightarrow> error + 'b) \<Rightarrow> error + 'b" where
  "ebind m f = (case m of Inl e \<Rightarrow> Inl e | Inr v \<Rightarrow> f v)"

text \<open>\<open>obj.get(key, default)\<close>: only a dict has the method; on anything else the
  attribute lookup raises.\<close>

definition py_get :: "json \<Rightarrow> string \<Rightarrow> json \<Rightarrow> error + json" where
  "py_get obj k d =
     (case obj of
        JDict kvs \<Rightarrow> Inr (case map_of kvs k of None \<Rightarrow> d | Some v \<Rightarrow> v)
      | _ \<Rightarrow> Inl AttributeError)"

text \<open>Truth value of an object, as \<open>or\<close> and \<open>if\<close> test it.\<close>

fun truthy :: "json \<Rightarrow> bool" where
  "truthy JNull = False"
| "truthy (JBool b) = b"
| "truthy (JInt i) = (i \<noteq> 0)"
| "truthy (JStr s) = (s \<noteq> [])"
| "truthy (JList xs) = (xs \<noteq> [])"
| "truthy (JDict kvs) = (kvs \<noteq> [])"

text \<open>What a \<open>for\<close> loop iterates over: the elements of a list, the keys of a dict, the
  characters of a string; other values are not iterable.\<close>

fun py_iter :: "json \<Rightarrow> error + json list" where
  "py_iter (JList xs) = Inr xs"
| "py_iter (JDict kvs) = Inr (map (\<lambda>kv. JStr (fst kv)) kvs)"
| "py_iter (JStr s) = Inr (map (\<lambda>c. JStr [c]) s)"
| "py_iter _ = Inl TypeError"

text \<open>A number in arithmetic: an int, or a bool counted as 0 or 1.\<close>

fun num_of :: "json \<Rightarrow> int option" where
  "num_of (JInt i) = Some i"
| "num_of (JBool b) = Some (if b then 1 else 0)"
| "num_of _ = None"

text \<open>\<open>a += b\<close> on two decoded values: a list is extended by any iterable, strings are
  concatenated, numbers are added; every other pairing raises.\<close>

fun py_iadd :: "json \<Rightarrow> json \<Rightarrow> error + json" where
  "py_iadd (JList xs) b = ebind (py_iter b) (\<lambda>ys. Inr (JList (xs @ ys)))"
| "py_iadd (JStr s) b = (case b of JStr t \<Rightarrow> Inr (JStr (s @ t)) | _ \<Rightarrow> Inl TypeError)"
| "py_iadd a b =
     (case (num_of a, num_of b) of
        (Some x, Some y) \<Rightarrow> Inr (JInt (x + y))
      | _ \<Rightarrow> Inl TypeError)"

text \<open>\<open>n += v\<close> where \<open>n\<close> is an int counter.\<close>

definition int_iadd :: "int \<Rightarrow> json \<Rightarrow> error + int" where
  "int_iadd n v = (case num_of v of Some x \<Rightarrow> Inr (n + x) | None \<Rightarrow> Inl TypeError)"

text \<open>Membership in a set hashes the value: lists and dicts are unhashable, and
  \<open>True\<close>/\<open>False\<close> are the same set elements as 1/0. \<open>py_key\<close> gives the element a
  value stands for.\<close>

fun py_key :: "json \<Rightarrow> error + json" where
  "py_key (JList xs) = Inl TypeError"
| "py_key (JDict kvs) = Inl TypeError"
| "py_key (JBool b) = Inr (JInt (if b then 1 else 0))"
| "py_key v = Inr v"

text \<open>\<open>s.lower()\<close> on the ASCII letters; a value that is not a string has no such
  method.\<close>

definition lower_char :: "char \<Rightarrow> char" where
  "lower_char c =
     (case map_of (zip ''ABCDEFGHIJKLMNOPQRSTUVWXYZ'' ''abcdefghijklmnopqrstuvwxyz'') c of
        Some l \<Rightarrow> l
      | None \<Rightarrow> c)"

definition lower :: "string \<Rightarrow> string" where
  "lower s = map lower_char s"

definition as_str :: "json \<Rightarrow> error + string" where
  "as_str v = (case v of JStr s \<Rightarrow> Inr s | _ \<Rightarrow> Inl AttributeError)"

section \<open>Transport client\<close>

text \<open>\<open>Queries.query\<close>: the reply is \<open>None\<close> when the request or the decoding raised;
  an exception and a decoded \<open>null\<close> both become the empty dict.\<close>

definition query :: "json option \<Rightarrow> json" where
  "query reply =
     (case reply of
        None \<Rightarrow> JDict []
      | Some result \<Rightarrow> (if result \<noteq> JNull then result else JDict []))"

text \<open>One REST attempt: the request raises, or a response arrives with a status and a
  body (\<open>None\<close> when decoding the body raises).\<close>

datatype rest_reply = Raises | Reply nat "json option"

record rest_result =
  result :: json
  attempts :: nat
  slept :: nat

text \<open>\<open>Queries.query_rest\<close>: \<open>n\<close> iterations of the \<open>for\<close> loop remain, \<open>i\<close> attempts
  have been made, \<open>sl\<close> seconds have been slept; \<open>srv i\<close> is the reply to attempt \<open>i\<close>.\<close>

fun query_rest_loop :: "nat \<Rightarrow> (nat \<Rightarrow> rest_reply) \<Rightarrow> nat \<Rightarrow> nat \<Rightarrow> rest_result" where
  "query_rest_loop 0 srv i sl = \<lparr>result = JDict [], attempts = i, slept = sl\<rparr>"
| "query_rest_loop (Suc n) srv i sl =
     (case srv i of
        Raises \<Rightarrow> \<lparr>result = JDict [], attempts = Suc i, slept = sl\<rparr>
      | Reply status body \<Rightarrow>
          if status = 202 then query_rest_loop n srv (Suc i) (sl + 2)
          else (case body of
                  None \<Rightarrow> \<lparr>result = JDict [], attempts = Suc i, slept = sl\<rparr>
                | Some r \<Rightarrow>
                    if r \<noteq> JNull then \<lparr>result = r, attempts = Suc i, slept = sl\<rparr>
                    else query_rest_loop n srv (Suc i) sl))"

definition query_rest :: "(nat \<Rightarrow> rest_reply) \<Rightarrow> rest_result" where
  "query_rest srv = query_rest_loop 67 srv 0 0"

section \<open>Aggregation engine: state\<close>

text \<open>An entry of the language mapping: the dict with the keys \<open>size\<close>,
  \<open>occurrences\<close>, \<open>color\<close> and, once computed, \<open>prop\<close>. Python computes \<open>prop\<close> in
  floating point; it is modelled as the exact quotient.\<close>

record lang_stat =
  lang_size :: json
  lang_occurrences :: int
  lang_color :: json
  lang_prop :: "rat option"

type_synonym lang_map = "(string \<times> lang_stat) list"

text \<open>What \<open>Stats.__init__\<close> receives and never changes. The members of
  \<open>exclude_repos\<close> are set elements in the sense of \<open>py_key\<close>.\<close>

record config =
  username :: string
  ignore_forked_repos :: bool
  exclude_repos :: "json set"
  exclude_langs :: "string set"

text \<open>The memoized attributes; \<open>None\<close> (for the name, \<open>JNull\<close>) is unset. The repo set
  is kept as the list of the values added to it, in the order of the additions.\<close>

record stats =
  self_name :: json
  self_stargazers :: "int option"
  self_forks :: "int option"
  self_total_contributions :: "int option"
  self_languages :: "lang_map option"
  self_repos :: "json list option"
  self_lines_changed :: "(int \<times> int) option"
  self_views :: "int option"

definition init_stats :: stats where
  "init_stats =
     \<lparr>self_name = JNull, self_stargazers = None, self_forks = None,
      self_total_contributions = None, self_languages = None, self_repos = None,
      self_lines_changed = None, self_views = None\<rparr>"

text \<open>The attributes as \<open>get_stats\<close> works on them after it has initialised them (they
  are no longer optional there), with the two cursors of the loop.\<close>

record trav =
  t_name :: json
  t_stargazers :: int
  t_forks :: int
  t_languages :: lang_map
  t_repos :: "json list"
  next_owned :: json
  next_contrib :: json

text \<open>A \<open>for\<close> loop whose body may raise: the exception ends the loop.\<close>

fun efold :: "('a \<Rightarrow> 's \<Rightarrow> error + 's) \<Rightarrow> 'a list \<Rightarrow> 's \<Rightarrow> error + 's" where
  "efold f [] s = Inr s"
| "efold f (x # xs) s = ebind (f x s) (efold f xs)"

text \<open>How a call ends: the replies supplied ran out while a request was waiting for
  one, an exception left the call, or the call returned.\<close>

datatype 'a outcome = Awaiting | Raised error | Exited 'a

section \<open>Aggregation engine: the traversal of \<open>get_stats\<close>\<close>

text \<open>The body of the loop over the language edges of one item.\<close>

definition fold_lang :: "string set \<Rightarrow> json \<Rightarrow> lang_map \<Rightarrow> error + lang_map" where
  "fold_lang exclude_langs_lower lang languages =
     ebind (py_get lang ''node'' (JDict [])) (\<lambda>node.
     ebind (py_get node ''name'' (JStr ''Other'')) (\<lambda>name.
     ebind (as_str name) (\<lambda>n.
       if lower n \<in> exclude_langs_lower then Inr languages
       else
         (case map_of languages n of
            Some v \<Rightarrow>
              ebind (py_get lang ''size'' (JInt 0)) (\<lambda>sz.
              ebind (py_iadd (lang_size v) sz) (\<lambda>sz'.
                Inr (AList.update n
                       (v\<lparr>lang_size := sz', lang_occurrences := lang_occurrences v + 1\<rparr>)
                       languages)))
          | None \<Rightarrow>
              ebind (py_get lang ''size'' (JInt 0)) (\<lambda>sz.
              ebind (py_get lang ''node'' (JDict [])) (\<lambda>node'.
              ebind (py_get node' ''color'' JNull) (\<lambda>c.
                Inr (AList.update n
                       \<lparr>lang_size = sz, lang_occurrences = 1, lang_color = c,
                        lang_prop = None\<rparr>
                       languages))))))))"

text \<open>The body of the loop over the items of one page.\<close>

definition fold_repo :: "config \<Rightarrow> string set \<Rightarrow> json \<Rightarrow> trav \<Rightarrow> error + trav" where
  "fold_repo cfg exclude_langs_lower repo st =
     (if repo = JNull then Inr st
      else
        ebind (py_get repo ''nameWithOwner'' JNull) (\<lambda>name.
        ebind (py_key name) (\<lambda>k.
          if k \<in> set (t_repos st) \<or> k \<in> exclude_repos cfg then Inr st
          else
            ebind (py_get repo ''stargazers'' JNull) (\<lambda>sg.
            ebind (py_get sg ''totalCount'' (JInt 0)) (\<lambda>tc.
            ebind (int_iadd (t_stargazers st) tc) (\<lambda>stars.
            ebind (py_get repo ''forkCount'' (JInt 0)) (\<lambda>fc.
            ebind (int_iadd (t_forks st) fc) (\<lambda>forks.
            ebind (py_get repo ''languages'' (JDict [])) (\<lambda>ls.
            ebind (py_get ls ''edges'' (JList [])) (\<lambda>edges.
            ebind (py_iter edges) (\<lambda>es.
            ebind (efold (fold_lang exclude_langs_lower) es (t_languages st)) (\<lambda>langs.
              Inr (st\<lparr>t_repos := t_repos st @ [k], t_stargazers := stars,
                      t_forks := forks, t_languages := langs\<rparr>)))))))))))))"

definition viewer :: "json \<Rightarrow> error + json" where
  "viewer raw_results =
     ebind (py_get raw_results ''data'' (JDict [])) (\<lambda>d. py_get d ''viewer'' (JDict []))"

definition display_name :: "json \<Rightarrow> error + json" where
  "display_name raw_results =
     ebind (viewer raw_results) (\<lambda>v.
     ebind (py_get v ''name'' JNull) (\<lambda>n.
       if n = JNull
       then ebind (viewer raw_results) (\<lambda>v'. py_get v' ''login'' (JStr ''No Name''))
       else Inr n))"

definition contrib_repos :: "json \<Rightarrow> error + json" where
  "contrib_repos raw_results =
     ebind (viewer raw_results) (\<lambda>v. py_get v ''repositoriesContributedTo'' (JDict []))"

definition owned_repos :: "json \<Rightarrow> error + json" where
  "owned_repos raw_results =
     ebind (viewer raw_results) (\<lambda>v. py_get v ''repositories'' (JDict []))"

text \<open>The working list of a page: the owned nodes, extended by the contributed nodes
  unless the flag is set.\<close>

definition page_repos :: "config \<Rightarrow> json \<Rightarrow> json \<Rightarrow> error + json" where
  "page_repos cfg owned contrib =
     ebind (py_get owned ''nodes'' (JList [])) (\<lambda>repos.
       if \<not> ignore_forked_repos cfg
       then ebind (py_get contrib ''nodes'' (JList [])) (\<lambda>nodes. py_iadd repos nodes)
       else Inr repos)"

definition page_info :: "json \<Rightarrow> error + json" where
  "page_info collection = py_get collection ''pageInfo'' (JDict [])"

text \<open>The test that continues the loop; \<open>or\<close> does not evaluate its right operand when
  the left one is true.\<close>

definition has_next_page :: "json \<Rightarrow> json \<Rightarrow> error + bool" where
  "has_next_page owned contrib =
     ebind (page_info owned) (\<lambda>info.
     ebind (py_get info ''hasNextPage'' (JBool False)) (\<lambda>h.
       if truthy h then Inr True
       else
         ebind (page_info contrib) (\<lambda>pc.
         ebind (py_get pc ''hasNextPage'' (JBool False)) (\<lambda>h'. Inr (truthy h')))))"

text \<open>One round of the \<open>while\<close> loop, from the reply of the query on: the result says
  whether the loop goes on.\<close>

definition loop_body :: "config \<Rightarrow> string set \<Rightarrow> json \<Rightarrow> trav \<Rightarrow> error + bool \<times> trav" where
  "loop_body cfg exclude_langs_lower raw st =
     (let raw_results = (if raw \<noteq> JNull then raw else JDict []) in
      ebind (display_name raw_results) (\<lambda>nm.
      ebind (contrib_repos raw_results) (\<lambda>contrib.
      ebind (owned_repos raw_results) (\<lambda>owned.
      ebind (page_repos cfg owned contrib) (\<lambda>repos.
      ebind (py_iter repos) (\<lambda>items.
      ebind (efold (fold_repo cfg exclude_langs_lower) items (st\<lparr>t_name := nm\<rparr>)) (\<lambda>st'.
      ebind (has_next_page owned contrib) (\<lambda>again.
        if again then
          ebind (page_info owned) (\<lambda>info.
          ebind (py_get info ''endCursor'' (next_owned st')) (\<lambda>no.
          ebind (page_info contrib) (\<lambda>pc.
          ebind (py_get pc ''endCursor'' (next_contrib st')) (\<lambda>nc.
            Inr (True, st'\<lparr>next_owned := no, next_contrib := nc\<rparr>)))))
        else Inr (False, st')))))))))"

text \<open>\<open>Queries.repos_overview\<close>: the document is a fixed text around the two \<open>after:\<close>
  arguments, which are all that is kept of it. A cursor that is neither \<open>None\<close> nor a
  string cannot be concatenated.\<close>

definition cursor_arg :: "json \<Rightarrow> error + string" where
  "cursor_arg cursor =
     (case cursor of
        JNull \<Rightarrow> Inr ''null''
      | JStr s \<Rightarrow> Inr ([CHR 0x22] @ s @ [CHR 0x22])
      | _ \<Rightarrow> Inl TypeError)"

record overview =
  after_owned :: string
  after_contrib :: string

definition repos_overview :: "json \<Rightarrow> json \<Rightarrow> error + overview" where
  "repos_overview contrib_cursor owned_cursor =
     ebind (cursor_arg owned_cursor) (\<lambda>ow.
     ebind (cursor_arg contrib_cursor) (\<lambda>c.
       Inr \<lparr>after_owned = ow, after_contrib = c\<rparr>))"

text \<open>The \<open>while True\<close> loop. Each round sends one document and takes the next reply;
  the result is how the loop ends and the documents sent, in order.\<close>

fun traversal ::
  "config \<Rightarrow> string set \<Rightarrow> json option list \<Rightarrow> trav \<Rightarrow> trav outcome \<times> overview list" where
  "traversal cfg exclude_langs_lower [] st =
     (case repos_overview (next_contrib st) (next_owned st) of
        Inl e \<Rightarrow> (Raised e, [])
      | Inr doc \<Rightarrow> (Awaiting, [doc]))"
| "traversal cfg exclude_langs_lower (reply # replies) st =
     (case repos_overview (next_contrib st) (next_owned st) of
        Inl e \<Rightarrow> (Raised e, [])
      | Inr doc \<Rightarrow>
          (case loop_body cfg exclude_langs_lower (query reply) st of
             Inl e \<Rightarrow> (Raised e, [doc])
           | Inr (again, st') \<Rightarrow>
               if again then
                 (case traversal cfg exclude_langs_lower replies st' of
                    (out, docs) \<Rightarrow> (out, doc # docs))
               else (Exited st', [doc])))"

text \<open>The lines after the loop: the sum of the sizes, then the share of each
  entry.\<close>

definition py_sum :: "json list \<Rightarrow> error + int" where
  "py_sum vs = efold (\<lambda>v acc. int_iadd acc v) vs 0"

definition share :: "int \<Rightarrow> json \<Rightarrow> error + rat" where
  "share langs_total sz =
     (if langs_total > 0
      then (case num_of sz of
              Some x \<Rightarrow> Inr (100 * (of_int x / of_int langs_total))
            | None \<Rightarrow> Inl TypeError)
      else Inr 0)"

definition set_props :: "lang_map \<Rightarrow> error + lang_map" where
  "set_props languages =
     ebind (py_sum (map (\<lambda>kv. lang_size (snd kv)) languages)) (\<lambda>langs_total.
       efold (\<lambda>kv acc.
                ebind (share langs_total (lang_size (snd kv))) (\<lambda>p.
                  Inr (acc @ [(fst kv, (snd kv)\<lparr>lang_prop := Some p\<rparr>)])))
             languages [])"

definition store :: "trav \<Rightarrow> stats \<Rightarrow> stats" where
  "store st s =
     s\<lparr>self_name := t_name st, self_stargazers := Some (t_stargazers st),
       self_forks := Some (t_forks st), self_languages := Some (t_languages st),
       self_repos := Some (t_repos st)\<rparr>"

definition start :: "stats \<Rightarrow> trav" where
  "start s =
     \<lparr>t_name = self_name s, t_stargazers = 0, t_forks = 0, t_languages = [],
      t_repos = [], next_owned = JNull, next_contrib = JNull\<rparr>"

text \<open>\<open>Stats.get_stats\<close>, called with nothing else running: the check, then the same
  check under the lock, then the traversal.\<close>

definition get_stats ::
  "config \<Rightarrow> json option list \<Rightarrow> stats \<Rightarrow> stats outcome \<times> overview list" where
  "get_stats cfg replies s =
     (if self_name s \<noteq> JNull then (Exited s, [])
      else if self_name s \<noteq> JNull then (Exited s, [])
      else
        (case traversal cfg (lower ` exclude_langs cfg) replies (start s) of
           (Awaiting, docs) \<Rightarrow> (Awaiting, docs)
         | (Raised e, docs) \<Rightarrow> (Raised e, docs)
         | (Exited st, docs) \<Rightarrow>
             (case set_props (t_languages st) of
                Inl e \<Rightarrow> (Raised e, docs)
              | Inr languages \<Rightarrow> (Exited (store (st\<lparr>t_languages := languages\<rparr>) s), docs))))"

section \<open>Aggregation engine: accessors\<close>

text \<open>The accessors \<open>name\<close>, \<open>stargazers\<close>, \<open>forks\<close>, \<open>languages\<close> and \<open>repos\<close> are the
  same code around one attribute each: return it when set, otherwise run \<open>get_stats\<close>
  and assert that it is set now.\<close>

definition accessor ::
  "(stats \<Rightarrow> 'v option) \<Rightarrow> config \<Rightarrow> json option list \<Rightarrow> stats \<Rightarrow>
   ('v \<times> stats) outcome \<times> overview list" where
  "accessor field cfg replies s =
     (case field s of
        Some v \<Rightarrow> (Exited (v, s), [])
      | None \<Rightarrow>
          (case get_stats cfg replies s of
             (Awaiting, docs) \<Rightarrow> (Awaiting, docs)
           | (Raised e, docs) \<Rightarrow> (Raised e, docs)
           | (Exited s', docs) \<Rightarrow>
               (case field s' of
                  Some v \<Rightarrow> (Exited (v, s'), docs)
                | None \<Rightarrow> (Raised AssertionError, docs))))"

definition name_opt :: "stats \<Rightarrow> json option" where
  "name_opt s = (if self_name s \<noteq> JNull then Some (self_name s) else None)"

definition name ::
  "config \<Rightarrow> json option list \<Rightarrow> stats \<Rightarrow> (json \<times> stats) outcome \<times> overview list" where
  "name = accessor name_opt"

definition stargazers ::
  "config \<Rightarrow> json option list \<Rightarrow> stats \<Rightarrow> (int \<times> stats) outcome \<times> overview list" where
  "stargazers = accessor self_stargazers"

definition forks ::
  "config \<Rightarrow> json option list \<Rightarrow> stats \<Rightarrow> (int \<times> stats) outcome \<times> overview list" where
  "forks = accessor self_forks"

definition languages ::
  "config \<Rightarrow> json option list \<Rightarrow> stats \<Rightarrow> (lang_map \<times> stats) outcome \<times> overview list" where
  "languages = accessor self_languages"

definition repos ::
  "config \<Rightarrow> json option list \<Rightarrow> stats \<Rightarrow> (json list \<times> stats) outcome \<times> overview list" where
  "repos = accessor self_repos"

text \<open>\<open>languages_proportional\<close>: the dict of the \<open>prop\<close> values, 0 where there is
  none.\<close>

definition props :: "lang_map \<Rightarrow> (string \<times> rat) list" where
  "props ls = map (\<lambda>kv. (fst kv, (case lang_prop (snd kv) of Some p \<Rightarrow> p | None \<Rightarrow> 0))) ls"

definition languages_proportional ::
  "config \<Rightarrow> json option list \<Rightarrow> stats \<Rightarrow>
   ((string \<times> rat) list \<times> stats) outcome \<times> overview list" where
  "languages_proportional cfg replies s =
     (case accessor self_languages cfg replies s of
        (Awaiting, docs) \<Rightarrow> (Awaiting, docs)
      | (Raised e, docs) \<Rightarrow> (Raised e, docs)
      | (Exited (ls, s'), docs) \<Rightarrow> (Exited (props ls, s'), docs))"

section \<open>Aggregation engine: fan-out statistics\<close>

definition is_dict :: "json \<Rightarrow> bool" where
  "is_dict v = (case v of JDict kvs \<Rightarrow> True | _ \<Rightarrow> False)"

definition is_list :: "json \<Rightarrow> bool" where
  "is_list v = (case v of JList xs \<Rightarrow> True | _ \<Rightarrow> False)"

text \<open>\<open>lines_changed\<close>: the three nested loops over the gathered results, on the pair
  \<open>(additions, deletions)\<close>.\<close>

definition fold_week :: "json \<Rightarrow> int \<times> int \<Rightarrow> error + int \<times> int" where
  "fold_week week ad =
     ebind (py_get week ''a'' (JInt 0)) (\<lambda>a.
     ebind (int_iadd (fst ad) a) (\<lambda>additions.
     ebind (py_get week ''d'' (JInt 0)) (\<lambda>d.
     ebind (int_iadd (snd ad) d) (\<lambda>deletions.
       Inr (additions, deletions)))))"

definition fold_author :: "string \<Rightarrow> json \<Rightarrow> int \<times> int \<Rightarrow> error + int \<times> int" where
  "fold_author user author_obj ad =
     (if \<not> is_dict author_obj then Inr ad
      else
        ebind (py_get author_obj ''author'' (JDict [])) (\<lambda>a.
          if \<not> is_dict a then Inr ad
          else
            ebind (py_get author_obj ''author'' (JDict [])) (\<lambda>a'.
            ebind (py_get a' ''login'' (JStr [])) (\<lambda>author.
              if author \<noteq> JStr user then Inr ad
              else
                ebind (py_get author_obj ''weeks'' (JList [])) (\<lambda>weeks.
                ebind (py_iter weeks) (\<lambda>ws. efold fold_week ws ad))))))"

definition fold_response :: "string \<Rightarrow> json \<Rightarrow> int \<times> int \<Rightarrow> error + int \<times> int" where
  "fold_response user response_obj ad =
     (if \<not> is_list response_obj then Inr ad
      else ebind (py_iter response_obj) (\<lambda>authors. efold (fold_author user) authors ad))"

definition sum_lines :: "string \<Rightarrow> json list \<Rightarrow> error + int \<times> int" where
  "sum_lines user results = efold (fold_response user) results (0, 0)"

text \<open>\<open>views\<close>: the two nested loops over the gathered results.\<close>

definition fold_view :: "json \<Rightarrow> int \<Rightarrow> error + int" where
  "fold_view view tot = ebind (py_get view ''count'' (JInt 0)) (\<lambda>c. int_iadd tot c)"

definition fold_result :: "json \<Rightarrow> int \<Rightarrow> error + int" where
  "fold_result res tot =
     (if \<not> is_dict res then Inr tot
      else
        ebind (py_get res ''views'' (JList [])) (\<lambda>vs.
        ebind (py_iter vs) (\<lambda>views. efold fold_view views tot)))"

definition sum_views :: "json list \<Rightarrow> error + int" where
  "sum_views results = efold fold_result results 0"

text \<open>The two accessors. \<open>rest repo\<close> is the sequence of replies that the REST server
  gives to the request for \<open>repo\<close>; \<open>gather\<close> returns the results in the order of the
  list of items.\<close>

definition lines_changed ::
  "config \<Rightarrow> (json \<Rightarrow> nat \<Rightarrow> rest_reply) \<Rightarrow> json option list \<Rightarrow> stats \<Rightarrow>
   ((int \<times> int) \<times> stats) outcome \<times> overview list" where
  "lines_changed cfg rest replies s =
     (case self_lines_changed s of
        Some lc \<Rightarrow> (Exited (lc, s), [])
      | None \<Rightarrow>
          (case repos cfg replies s of
             (Awaiting, docs) \<Rightarrow> (Awaiting, docs)
           | (Raised e, docs) \<Rightarrow> (Raised e, docs)
           | (Exited (repo_list, s'), docs) \<Rightarrow>
               (case sum_lines (username cfg)
                       (map (\<lambda>repo. result (query_rest (rest repo))) repo_list) of
                  Inl e \<Rightarrow> (Raised e, docs)
                | Inr lc \<Rightarrow> (Exited (lc, s'\<lparr>self_lines_changed := Some lc\<rparr>), docs))))"

definition views ::
  "config \<Rightarrow> (json \<Rightarrow> nat \<Rightarrow> rest_reply) \<Rightarrow> json option list \<Rightarrow> stats \<Rightarrow>
   (int \<times> stats) outcome \<times> overview list" where
  "views cfg rest replies s =
     (case self_views s of
        Some tot \<Rightarrow> (Exited (tot, s), [])
      | None \<Rightarrow>
          (case repos cfg replies s of
             (Awaiting, docs) \<Rightarrow> (Awaiting, docs)
           | (Raised e, docs) \<Rightarrow> (Raised e, docs)
           | (Exited (repo_list, s'), docs) \<Rightarrow>
               (case sum_views (map (\<lambda>repo. result (query_rest (rest repo))) repo_list) of
                  Inl e \<Rightarrow> (Raised e, docs)
                | Inr tot \<Rightarrow> (Exited (tot, s'\<lparr>self_views := Some tot\<rparr>), docs))))"

text \<open>\<open>total_contributions\<close>. Of the two documents only whether they can be built is
  kept: \<open>contribs_by_year\<close> applies \<open>int\<close> to each year. What \<open>int\<close> makes of a string is
  the parameter \<open>int_of_str\<close> (\<open>None\<close> where it raises \<open>ValueError\<close>).\<close>

definition py_int :: "(string \<Rightarrow> int option) \<Rightarrow> json \<Rightarrow> error + int" where
  "py_int int_of_str v =
     (case v of
        JInt i \<Rightarrow> Inr i
      | JBool b \<Rightarrow> Inr (if b then 1 else 0)
      | JStr s \<Rightarrow> (case int_of_str s of Some i \<Rightarrow> Inr i | None \<Rightarrow> Inl ValueError)
      | _ \<Rightarrow> Inl TypeError)"

definition all_contribs :: "(string \<Rightarrow> int option) \<Rightarrow> json \<Rightarrow> error + unit" where
  "all_contribs int_of_str years =
     ebind (py_iter years) (\<lambda>ys.
       efold (\<lambda>year u. ebind (py_int int_of_str year) (\<lambda>y. Inr ())) ys ())"

definition py_values :: "json \<Rightarrow> error + json list" where
  "py_values v = (case v of JDict kvs \<Rightarrow> Inr (map snd kvs) | _ \<Rightarrow> Inl AttributeError)"

definition fold_year :: "json \<Rightarrow> int \<Rightarrow> error + int" where
  "fold_year year_data tot =
     ebind (py_get year_data ''contributionCalendar'' (JDict [])) (\<lambda>cal.
     ebind (py_get cal ''totalContributions'' (JInt 0)) (\<lambda>n. int_iadd tot n))"

definition contribution_years :: "json \<Rightarrow> error + json" where
  "contribution_years response =
     ebind (viewer response) (\<lambda>v.
     ebind (py_get v ''contributionsCollection'' (JDict [])) (\<lambda>c.
       py_get c ''contributionYears'' (JList [])))"

definition total_contributions ::
  "(string \<Rightarrow> int option) \<Rightarrow> json option list \<Rightarrow> stats \<Rightarrow> (int \<times> stats) outcome" where
  "total_contributions int_of_str replies s =
     (case self_total_contributions s of
        Some tot \<Rightarrow> Exited (tot, s)
      | None \<Rightarrow>
          (case replies of
             [] \<Rightarrow> Awaiting
           | r1 # rest \<Rightarrow>
               (case ebind (contribution_years (query r1)) (all_contribs int_of_str) of
                  Inl e \<Rightarrow> Raised e
                | Inr u \<Rightarrow>
                    (case rest of
                       [] \<Rightarrow> Awaiting
                     | r2 # rest' \<Rightarrow>
                         (case ebind (viewer (query r2)) (\<lambda>viewer_data.
                               ebind (py_values viewer_data) (\<lambda>ys. efold fold_year ys 0)) of
                            Inl e \<Rightarrow> Raised e
                          | Inr tot \<Rightarrow>
                              Exited (tot, s\<lparr>self_total_contributions := Some tot\<rparr>))))))"

text \<open>Any one call on the engine, and the state it leaves.\<close>

datatype call =
    Get_stats | Name | Stargazers | Forks | Languages | Languages_proportional | Repos
  | Total_contributions | Lines_changed | Views

record world =
  graph_replies :: "json option list"
  contributors :: "json \<Rightarrow> nat \<Rightarrow> rest_reply"
  traffic :: "json \<Rightarrow> nat \<Rightarrow> rest_reply"
  int_of_str :: "string \<Rightarrow> int option"

definition after :: "('v \<times> stats) outcome \<Rightarrow> stats outcome" where
  "after out = (case out of Awaiting \<Rightarrow> Awaiting | Raised e \<Rightarrow> Raised e | Exited vs \<Rightarrow> Exited (snd vs))"

definition perform :: "config \<Rightarrow> world \<Rightarrow> call \<Rightarrow> stats \<Rightarrow> stats outcome" where
  "perform cfg w c s =
     (case c of
        Get_stats \<Rightarrow> fst (get_stats cfg (graph_replies w) s)
      | Name \<Rightarrow> after (fst (name cfg (graph_replies w) s))
      | Stargazers \<Rightarrow> after (fst (stargazers cfg (graph_replies w) s))
      | Forks \<Rightarrow> after (fst (forks cfg (graph_replies w) s))
      | Languages \<Rightarrow> after (fst (languages cfg (graph_replies w) s))
      | Languages_proportional \<Rightarrow> after (fst (languages_proportional cfg (graph_replies w) s))
      | Repos \<Rightarrow> after (fst (repos cfg (graph_replies w) s))
      | Total_contributions \<Rightarrow> after (total_contributions (int_of_str w) (graph_replies w) s)
      | Lines_changed \<Rightarrow> after (fst (lines_changed cfg (contributors w) (graph_replies w) s))
      | Views \<Rightarrow> after (fst (views cfg (traffic w) (graph_replies w) s)))"

section \<open>Example responses\<close>

text \<open>Responses of the shape that the overview document asks for.\<close>

definition lang_edge :: "string \<Rightarrow> int \<Rightarrow> json" where
  "lang_edge n sz =
     JDict [(''size'', JInt sz), (''node'', JDict [(''name'', JStr n), (''color'', JNull)])]"

definition repo_node :: "string \<Rightarrow> int \<Rightarrow> int \<Rightarrow> json list \<Rightarrow> json" where
  "repo_node n stars fks edges =
     JDict [(''nameWithOwner'', JStr n), (''stargazers'', JDict [(''totalCount'', JInt stars)]),
            (''forkCount'', JInt fks), (''languages'', JDict [(''edges'', JList edges)])]"

definition collection :: "bool \<Rightarrow> json \<Rightarrow> json list \<Rightarrow> json" where
  "collection has_next cursor nodes =
     JDict [(''pageInfo'', JDict [(''hasNextPage'', JBool has_next), (''endCursor'', cursor)]),
            (''nodes'', JList nodes)]"

definition page :: "json \<Rightarrow> json \<Rightarrow> json \<Rightarrow> json \<Rightarrow> json" where
  "page nm login owned contrib =
     JDict [(''data'', JDict [(''viewer'', JDict [(''login'', login), (''name'', nm),
        (''repositories'', owned), (''repositoriesContributedTo'', contrib)])])]"

definition cfg0 :: config where
  "cfg0 = \<lparr>username = ''seth'', ignore_forked_repos = False, exclude_repos = {},
           exclude_langs = {}\<rparr>"

section \<open>What a reply says about further pages and items\<close>

text \<open>The value of the loop's continuation test on a reply, and the working list of
  items of a reply, as the loop body computes them.\<close>

definition reports_next :: "json option \<Rightarrow> error + bool" where
  "reports_next reply =
     ebind (contrib_repos (query reply)) (\<lambda>contrib.
     ebind (owned_repos (query reply)) (\<lambda>owned. has_next_page owned contrib))"

definition items_of :: "config \<Rightarrow> json option \<Rightarrow> error + json list" where
  "items_of cfg reply =
     ebind (contrib_repos (query reply)) (\<lambda>contrib.
     ebind (owned_repos (query reply)) (\<lambda>owned.
     ebind (page_repos cfg owned contrib) py_iter))"

section \<open>Retry bound of the REST client\<close>






text \<open>Two replies that announce a further page, one that ends the traversal, and one
  of an account without repositories.\<close>

definition page_one :: json where
  "page_one =
     page (JStr ''First'') (JStr ''seth'')
       (collection True (JStr ''o1'') [repo_node ''a/b'' 3 1 [lang_edge ''Go'' 800]])
       (collection True (JStr ''c1'') [])"

definition page_two :: json where
  "page_two =
     page (JStr ''Second'') (JStr ''seth'')
       (collection True (JStr ''o2'') [repo_node ''a/c'' 5 0 [lang_edge ''TS'' 200]])
       (collection False JNull [repo_node ''x/y'' 1 1 []])"

definition page_last :: json where
  "page_last =
     page (JStr ''Third'') (JStr ''seth'')
       (collection False JNull [repo_node ''a/b'' 7 7 [lang_edge ''Go'' 1]])
       (collection False JNull [])"

definition page_empty :: json where
  "page_empty =
     page JNull (JStr ''seth'') (collection False JNull []) (collection False JNull [])"

text \<open>The value under a key of a dict, if the dict has the key.\<close>

definition lookup :: "json \<Rightarrow> string \<Rightarrow> json option" where
  "lookup obj k = (case obj of JDict kvs \<Rightarrow> map_of kvs k | _ \<Rightarrow> None)"

text \<open>A reply in which both collections report a further page and no \<open>endCursor\<close>.\<close>

definition page_stall :: json where
  "page_stall =
     page (JStr ''Seth'') (JStr ''seth'')
       (JDict [(''pageInfo'', JDict [(''hasNextPage'', JBool True)]), (''nodes'', JList [])])
       (JDict [(''pageInfo'', JDict [(''hasNextPage'', JBool True)]), (''nodes'', JList [])])"

text \<open>A reply whose only item has no \<open>stargazers\<close> field.\<close>

definition page_no_stargazers :: json where
  "page_no_stargazers =
     page (JStr ''Seth'') (JStr ''seth'')
       (collection False JNull [JDict [(''nameWithOwner'', JStr ''a/b''), (''forkCount'', JInt 1)]])
       (collection False JNull [])"

text \<open>What an accessor call returned, if it returned.\<close>

definition returned :: "('v \<times> stats) outcome \<Rightarrow> 'v option" where
  "returned out = (case out of Exited vs \<Rightarrow> Some (fst vs) | _ \<Rightarrow> None)"




text \<open>An account with one item \<open>a/b\<close> in Go (800 bytes) and TS (200 bytes), and one
  whose only language has size 0.\<close>

definition page_go_ts :: json where
  "page_go_ts =
     page (JStr ''Seth'') (JStr ''seth'')
       (collection False JNull [repo_node ''a/b'' 3 1 [lang_edge ''Go'' 800, lang_edge ''TS'' 200]])
       (collection False JNull [])"

definition page_zero :: json where
  "page_zero =
     page (JStr ''Seth'') (JStr ''seth'')
       (collection False JNull [repo_node ''a/b'' 3 1 [lang_edge ''Go'' 0]])
       (collection False JNull [])"

section \<open>What a reply holds\<close>

text \<open>What a decoded reply holds under a path of keys, read off the reply itself: no
  default stands in for a missing key. A request that failed has no reply.\<close>

fun at_path :: "json \<Rightarrow> string list \<Rightarrow> json option" where
  "at_path v [] = Some v"
| "at_path v (k # ks) = (case lookup v k of Some w \<Rightarrow> at_path w ks | None \<Rightarrow> None)"

definition in_reply :: "json option \<Rightarrow> string list \<Rightarrow> json option" where
  "in_reply reply ks = (case reply of None \<Rightarrow> None | Some v \<Rightarrow> at_path v ks)"

definition owned_path :: "string list" where
  "owned_path = [''data'', ''viewer'', ''repositories'']"

definition contrib_path :: "string list" where
  "contrib_path = [''data'', ''viewer'', ''repositoriesContributedTo'']"

text \<open>Whether a collection of the reply reports \<open>hasNextPage\<close>, whether either does, the
  \<open>endCursor\<close> a collection reports, and the nodes it lists.\<close>

definition has_next :: "json option \<Rightarrow> string list \<Rightarrow> bool" where
  "has_next reply coll =
     (case in_reply reply (coll @ [''pageInfo'', ''hasNextPage'']) of
        Some h \<Rightarrow> truthy h
      | None \<Rightarrow> False)"

definition further_page :: "json option \<Rightarrow> bool" where
  "further_page reply = (has_next reply owned_path \<or> has_next reply contrib_path)"

definition end_cursor :: "json option \<Rightarrow> string list \<Rightarrow> json option" where
  "end_cursor reply coll = in_reply reply (coll @ [''pageInfo'', ''endCursor''])"

definition nodes_of :: "json option \<Rightarrow> string list \<Rightarrow> json list" where
  "nodes_of reply coll =
     (case in_reply reply (coll @ [''nodes'']) of Some (JList xs) \<Rightarrow> xs | _ \<Rightarrow> [])"

text \<open>The cursors that the claims about pagination speak of: a reported \<open>endCursor\<close>
  replaces the cursor of its collection, a missing one leaves it. \<open>cursors\<close> lists the
  pair of cursors before each reply and after the last one; \<open>request\<close> is the document
  with a pair of cursors as its \<open>after:\<close> arguments, a string cursor in double
  quotes.\<close>

definition pick :: "json option \<Rightarrow> json \<Rightarrow> json" where
  "pick v d = (case v of Some x \<Rightarrow> x | None \<Rightarrow> d)"

definition next_cursors :: "json option \<Rightarrow> json \<times> json \<Rightarrow> json \<times> json" where
  "next_cursors reply oc =
     (pick (end_cursor reply owned_path) (fst oc), pick (end_cursor reply contrib_path) (snd oc))"

fun cursors :: "json option list \<Rightarrow> json \<times> json \<Rightarrow> (json \<times> json) list" where
  "cursors [] oc = [oc]"
| "cursors (r # rs) oc = oc # cursors rs (next_cursors r oc)"

definition quoted :: "json \<Rightarrow> string" where
  "quoted c = (case c of JStr s \<Rightarrow> [CHR 0x22] @ s @ [CHR 0x22] | _ \<Rightarrow> ''null'')"

definition request :: "json \<times> json \<Rightarrow> overview" where
  "request oc = \<lparr>after_owned = quoted (fst oc), after_contrib = quoted (snd oc)\<rparr>"

text \<open>Replies of the shape the document asks for. A key may be missing wherever the
  program reads it with a default; a value that is there has the type of the schema:
  objects are dicts, \<open>nodes\<close> and \<open>edges\<close> are lists, counts and sizes are numbers, a
  language name is a string, an \<open>endCursor\<close> is \<open>null\<close> or a string, and an item has its
  \<open>stargazers\<close> object.\<close>

definition absent_or :: "(json \<Rightarrow> bool) \<Rightarrow> json option \<Rightarrow> bool" where
  "absent_or P v = (case v of None \<Rightarrow> True | Some x \<Rightarrow> P x)"

definition is_number :: "json \<Rightarrow> bool" where
  "is_number v = (case v of JInt i \<Rightarrow> True | JBool b \<Rightarrow> True | _ \<Rightarrow> False)"

definition is_string :: "json \<Rightarrow> bool" where
  "is_string v = (case v of JStr s \<Rightarrow> True | _ \<Rightarrow> False)"

definition is_cursor :: "json \<Rightarrow> bool" where
  "is_cursor v = (case v of JNull \<Rightarrow> True | JStr s \<Rightarrow> True | _ \<Rightarrow> False)"

definition is_list_of :: "(json \<Rightarrow> bool) \<Rightarrow> json \<Rightarrow> bool" where
  "is_list_of P v = (case v of JList xs \<Rightarrow> list_all P xs | _ \<Rightarrow> False)"

definition wf_edge :: "json \<Rightarrow> bool" where
  "wf_edge e =
     (is_dict e \<and> absent_or is_number (lookup e ''size'') \<and>
      absent_or (\<lambda>n. is_dict n \<and> absent_or is_string (lookup n ''name'')) (lookup e ''node''))"

definition wf_item :: "json \<Rightarrow> bool" where
  "wf_item r =
     (r = JNull \<or>
      (is_dict r \<and> absent_or is_string (lookup r ''nameWithOwner'') \<and>
       (case lookup r ''stargazers'' of
          Some sg \<Rightarrow> is_dict sg \<and> absent_or is_number (lookup sg ''totalCount'')
        | None \<Rightarrow> False) \<and>
       absent_or is_number (lookup r ''forkCount'') \<and>
       absent_or (\<lambda>l. is_dict l \<and> absent_or (is_list_of wf_edge) (lookup l ''edges''))
         (lookup r ''languages'')))"

definition wf_collection :: "json \<Rightarrow> bool" where
  "wf_collection c =
     (is_dict c \<and>
      absent_or (\<lambda>i. is_dict i \<and> absent_or is_cursor (lookup i ''endCursor''))
        (lookup c ''pageInfo'') \<and>
      absent_or (is_list_of wf_item) (lookup c ''nodes''))"

definition wf_viewer :: "json \<Rightarrow> bool" where
  "wf_viewer v =
     (is_dict v \<and> absent_or wf_collection (lookup v ''repositories'') \<and>
      absent_or wf_collection (lookup v ''repositoriesContributedTo''))"

definition wf_reply :: "json option \<Rightarrow> bool" where
  "wf_reply reply =
     (case reply of
        None \<Rightarrow> True
      | Some v \<Rightarrow>
          v = JNull \<or>
          (is_dict v \<and>
           absent_or (\<lambda>d. is_dict d \<and> absent_or wf_viewer (lookup d ''viewer''))
             (lookup v ''data'')))"

text \<open>The states of the traversal in which no arithmetic and no request can fail on
  what earlier replies left: the cursors are \<open>null\<close> or strings and the sizes in the
  language mapping are numbers.\<close>

definition wf_state :: "trav \<Rightarrow> bool" where
  "wf_state st =
     (is_cursor (next_owned st) \<and> is_cursor (next_contrib st) \<and>
      list_all (\<lambda>kv. is_number (lang_size (snd kv))) (t_languages st))"

text \<open>Two replies in which the owned collection reports a further page and no
  \<open>endCursor\<close> while the contributed collection moves on.\<close>

definition page_stall_c1 :: json where
  "page_stall_c1 =
     page (JStr ''Seth'') (JStr ''seth'')
       (JDict [(''pageInfo'', JDict [(''hasNextPage'', JBool True)]), (''nodes'', JList [])])
       (collection True (JStr ''c1'') [])"

definition page_stall_c2 :: json where
  "page_stall_c2 =
     page (JStr ''Seth'') (JStr ''seth'')
       (JDict [(''pageInfo'', JDict [(''hasNextPage'', JBool True)]), (''nodes'', JList [])])
       (collection True (JStr ''c2'') [])"

section \<open>Proofs: basic facts\<close>

lemma ebind_Inl [simp]: "ebind (Inl e) f = Inl e"
  by (simp add: ebind_def)

lemma ebind_Inr [simp]: "ebind (Inr v) f = f v"
  by (simp add: ebind_def)

lemma ebind_eq_Inr: "ebind m f = Inr y \<longleftrightarrow> (\<exists>v. m = Inr v \<and> f v = Inr y)"
  by (cases m) auto

lemma ebind_eq_Inl: "ebind m f = Inl e \<longleftrightarrow> m = Inl e \<or> (\<exists>v. m = Inr v \<and> f v = Inl e)"
  by (cases m) auto

lemma efold_append: "efold f (xs @ ys) s = ebind (efold f xs s) (efold f ys)"
  by (induction xs arbitrary: s) (auto simp: ebind_def split: sum.splits)

lemma query_not_null [simp]: "query reply \<noteq> JNull"
  by (auto simp: query_def split: option.splits)

section \<open>Proofs: retry bound\<close>





section \<open>Proofs: rounds of the traversal\<close>

lemma loop_body_cases:
  assumes "loop_body cfg ex (query r) st = Inr (again, st')"
  obtains nm contrib owned items st1 where
    "display_name (query r) = Inr nm"
    "contrib_repos (query r) = Inr contrib"
    "owned_repos (query r) = Inr owned"
    "items_of cfg r = Inr items"
    "efold (fold_repo cfg ex) items (st\<lparr>t_name := nm\<rparr>) = Inr st1"
    "has_next_page owned contrib = Inr again"
    "\<not> again \<Longrightarrow> st' = st1"
    "again \<Longrightarrow> \<exists>info no pc nc. page_info owned = Inr info \<and>
        py_get info ''endCursor'' (next_owned st1) = Inr no \<and>
        page_info contrib = Inr pc \<and>
        py_get pc ''endCursor'' (next_contrib st1) = Inr nc \<and>
        st' = st1\<lparr>next_owned := no, next_contrib := nc\<rparr>"
  using assms
  by (auto simp: loop_body_def items_of_def Let_def ebind_eq_Inr split: if_splits)

lemma loop_body_again:
  assumes "loop_body cfg ex (query r) st = Inr (again, st')"
  shows "reports_next r = Inr again"
  using assms by (auto elim!: loop_body_cases simp: reports_next_def)

lemma traversal_exit:
  "traversal cfg ex rs st = (Exited st', docs) \<Longrightarrow>
   0 < length docs \<and> length docs \<le> length rs \<and>
   reports_next (rs ! (length docs - 1)) = Inr False \<and>
   (\<forall>i < length docs - 1. reports_next (rs ! i) = Inr True)"
proof (induction rs arbitrary: st docs)
  case Nil
  then show ?case by (auto split: sum.splits)
next
  case (Cons r rs)
  from Cons.prems obtain doc where doc: "repos_overview (next_contrib st) (next_owned st) = Inr doc"
    by (auto split: sum.splits)
  from Cons.prems doc obtain again st1 where body: "loop_body cfg ex (query r) st = Inr (again, st1)"
    by (auto split: sum.splits)
  have rn: "reports_next r = Inr again" using body by (rule loop_body_again)
  show ?case
  proof (cases again)
    case False
    with Cons.prems doc body rn show ?thesis by auto
  next
    case True
    with Cons.prems doc body obtain docs' where
      t: "traversal cfg ex rs st1 = (Exited st', docs')" and d: "docs = doc # docs'"
      by (auto split: prod.splits)
    from Cons.IH [OF t] d True rn show ?thesis
      by (auto simp: nth_Cons split: nat.splits)
  qed
qed

lemma py_get_dict: "py_get v k d = Inr x \<Longrightarrow> \<exists>y. py_get v k' d' = Inr y"
  by (auto simp: py_get_def split: json.splits)

lemma display_name_defined:
  assumes "contrib_repos raw = Inr c"
  shows "\<exists>nm. display_name raw = Inr nm"
proof -
  from assms obtain v where v: "viewer raw = Inr v"
    and g: "py_get v ''repositoriesContributedTo'' (JDict []) = Inr c"
    by (auto simp: contrib_repos_def ebind_eq_Inr)
  from g obtain n where n: "py_get v ''name'' JNull = Inr n"
    using py_get_dict by blast
  from g obtain l where l: "py_get v ''login'' (JStr ''No Name'') = Inr l"
    using py_get_dict by blast
  from v n l show ?thesis by (simp add: display_name_def)
qed

lemma traversal_no_items:
  assumes "items_of cfg r0 = Inr []" "reports_next r0 = Inr False"
  shows "\<exists>nm. traversal cfg ex (r0 # rest) (start s) =
           (Exited ((start s)\<lparr>t_name := nm\<rparr>),
            [\<lparr>after_owned = ''null'', after_contrib = ''null''\<rparr>])"
proof -
  from assms(1) obtain c ow l where c: "contrib_repos (query r0) = Inr c"
    and ow: "owned_repos (query r0) = Inr ow"
    and l: "page_repos cfg ow c = Inr l" and it: "py_iter l = Inr []"
    by (auto simp: items_of_def ebind_eq_Inr)
  from assms(2) c ow have h: "has_next_page ow c = Inr False"
    by (simp add: reports_next_def)
  from c obtain nm where nm: "display_name (query r0) = Inr nm"
    using display_name_defined by blast
  have body: "loop_body cfg ex (query r0) (start s) = Inr (False, (start s)\<lparr>t_name := nm\<rparr>)"
    using c ow l it h nm by (simp add: loop_body_def)
  have doc: "repos_overview (next_contrib (start s)) (next_owned (start s))
             = Inr \<lparr>after_owned = ''null'', after_contrib = ''null''\<rparr>"
    by (simp add: repos_overview_def cursor_arg_def start_def)
  show ?thesis using body doc by auto
qed

text \<open>Unfolding the example replies and the functions that read them.\<close>

lemmas page_defs = page_one_def page_two_def page_last_def page_empty_def page_def
  collection_def repo_node_def lang_edge_def

lemmas read_defs = reports_next_def items_of_def query_def contrib_repos_def owned_repos_def
  viewer_def py_get_def has_next_page_def page_info_def page_repos_def cfg0_def

lemmas eval_defs = loop_body_def display_name_def start_def init_stats_def
  repos_overview_def cursor_arg_def fold_repo_def fold_lang_def int_iadd_def as_str_def
  lower_def lower_char_def Let_def

section \<open>Proofs: cursors\<close>

lemma efold_preserve:
  assumes "\<And>x s s'. f x s = Inr s' \<Longrightarrow> P s \<Longrightarrow> P s'"
  shows "efold f xs s = Inr s' \<Longrightarrow> P s \<Longrightarrow> P s'"
proof (induction xs arbitrary: s)
  case Nil
  then show ?case by simp
next
  case (Cons x xs)
  then show ?case using assms by (auto simp: ebind_eq_Inr)
qed

lemma fold_repo_cursors:
  "fold_repo cfg ex r st = Inr st' \<Longrightarrow>
   next_owned st' = next_owned st \<and> next_contrib st' = next_contrib st"
  by (auto simp: fold_repo_def ebind_eq_Inr split: if_splits)

lemma fold_repos_cursors:
  assumes "efold (fold_repo cfg ex) items st = Inr st'"
  shows "next_owned st' = next_owned st \<and> next_contrib st' = next_contrib st"
proof -
  have "next_owned st' = next_owned st \<and> next_contrib st' = next_contrib st"
    by (rule efold_preserve [where f = "fold_repo cfg ex"
          and P = "\<lambda>t. next_owned t = next_owned st \<and> next_contrib t = next_contrib st",
          OF _ assms])
       (auto dest: fold_repo_cursors)
  then show ?thesis .
qed

lemma page_one_goes_on:
  "\<exists>st'. loop_body cfg0 {} (query (Some page_one)) (start init_stats) = Inr (True, st')"
  by (simp add: page_defs read_defs eval_defs)

section \<open>Proofs: a reply with a missing field\<close>

text \<open>
  Claim C7. The claim is that no shape of reply makes the fold raise. On a reply whose
  only item has a \<open>nameWithOwner\<close> and a \<open>forkCount\<close> but no \<open>stargazers\<close> field,
  \<open>get_stats\<close> raises \<open>AttributeError\<close> in its first round: the lookup of
  \<open>stargazers\<close> has no default, so \<open>totalCount\<close> is looked up in \<open>None\<close>.
\<close>

theorem missing_stargazers_raises:
  "get_stats cfg0 [Some page_no_stargazers] init_stats =
     (Raised AttributeError, [\<lparr>after_owned = ''null'', after_contrib = ''null''\<rparr>])"
  by (simp add: get_stats_def page_no_stargazers_def page_defs read_defs eval_defs)

section \<open>Proofs: the display name\<close>

lemma fold_repo_name: "fold_repo cfg ex r st = Inr st' \<Longrightarrow> t_name st' = t_name st"
  by (auto simp: fold_repo_def ebind_eq_Inr split: if_splits)

lemma fold_repos_name:
  assumes "efold (fold_repo cfg ex) items st = Inr st'"
  shows "t_name st' = t_name st"
  by (rule efold_preserve [where f = "fold_repo cfg ex" and P = "\<lambda>t. t_name t = t_name st",
        OF _ assms]) (auto dest: fold_repo_name)

lemma loop_body_name:
  assumes "loop_body cfg ex (query r) st = Inr (again, st')"
  shows "display_name (query r) = Inr (t_name st')"
proof -
  from assms obtain nm items st1 where
    nm: "display_name (query r) = Inr nm" and
    f: "efold (fold_repo cfg ex) items (st\<lparr>t_name := nm\<rparr>) = Inr st1" and
    a: "\<not> again \<Longrightarrow> st' = st1" and
    b: "again \<Longrightarrow> \<exists>info no pc nc. st' = st1\<lparr>next_owned := no, next_contrib := nc\<rparr>"
    by (elim loop_body_cases) blast
  from fold_repos_name [OF f] have "t_name st1 = nm" by simp
  with a b have "t_name st' = nm" by (cases again) auto
  with nm show ?thesis by simp
qed

lemma traversal_name:
  "traversal cfg ex rs st = (Exited st', docs) \<Longrightarrow>
   display_name (query (rs ! (length docs - 1))) = Inr (t_name st')"
proof (induction rs arbitrary: st docs)
  case Nil
  then show ?case by (auto split: sum.splits)
next
  case (Cons r rs)
  from Cons.prems obtain doc where doc: "repos_overview (next_contrib st) (next_owned st) = Inr doc"
    by (auto split: sum.splits)
  from Cons.prems doc obtain again st1 where body: "loop_body cfg ex (query r) st = Inr (again, st1)"
    by (auto split: sum.splits)
  show ?case
  proof (cases again)
    case False
    with Cons.prems doc body loop_body_name [OF body] show ?thesis by auto
  next
    case True
    with Cons.prems doc body obtain docs' where
      t: "traversal cfg ex rs st1 = (Exited st', docs')" and d: "docs = doc # docs'"
      by (auto split: prod.splits)
    from traversal_exit [OF t] have "0 < length docs'" by simp
    with Cons.IH [OF t] d show ?thesis
      by (cases docs') auto
  qed
qed

lemma get_stats_cases:
  assumes "get_stats cfg rs s = (Exited s', docs)" "self_name s = JNull"
  obtains st ls where
    "traversal cfg (lower ` exclude_langs cfg) rs (start s) = (Exited st, docs)"
    "set_props (t_languages st) = Inr ls"
    "s' = store (st\<lparr>t_languages := ls\<rparr>) s"
  using assms
  by (auto simp: get_stats_def split: prod.splits outcome.splits sum.splits)

lemma display_name_chain:
  "display_name raw = Inr nm \<longleftrightarrow>
   (\<exists>v. viewer raw = Inr v \<and> is_dict v \<and>
      nm = (case lookup v ''name'' of
              Some n \<Rightarrow> if n \<noteq> JNull then n
                        else (case lookup v ''login'' of Some l \<Rightarrow> l | None \<Rightarrow> JStr ''No Name'')
            | None \<Rightarrow> (case lookup v ''login'' of Some l \<Rightarrow> l | None \<Rightarrow> JStr ''No Name'')))"
  by (cases "viewer raw")
     (auto simp: display_name_def py_get_def lookup_def is_dict_def
           split: json.splits option.splits)

text \<open>
  Claim C8, as amended. Every round assigns the display name, so after \<open>get_stats\<close> it
  is the one computed from the last reply the traversal read: the viewer's \<open>name\<close> if
  that is not null; otherwise the value under the viewer's \<open>login\<close> key if the key is
  present; otherwise the literal \<open>No Name\<close>.
\<close>

theorem display_name_of_last_page:
  "(self_name s = JNull \<and> get_stats cfg rps s = (Exited s', docs) \<longrightarrow>
      0 < length docs \<and> length docs \<le> length rps \<and>
      display_name (query (rps ! (length docs - 1))) = Inr (self_name s')) \<and>
   (display_name raw = Inr nm \<longleftrightarrow>
      (\<exists>v. viewer raw = Inr v \<and> is_dict v \<and>
         nm = (case lookup v ''name'' of
                 Some n \<Rightarrow> if n \<noteq> JNull then n
                           else (case lookup v ''login'' of Some l \<Rightarrow> l | None \<Rightarrow> JStr ''No Name'')
               | None \<Rightarrow> (case lookup v ''login'' of Some l \<Rightarrow> l | None \<Rightarrow> JStr ''No Name''))))"
proof -
  have "0 < length docs \<and> length docs \<le> length rps \<and>
      display_name (query (rps ! (length docs - 1))) = Inr (self_name s')"
    if a: "self_name s = JNull" "get_stats cfg rps s = (Exited s', docs)"
  proof -
    from a(2,1) obtain st ls where
      t: "traversal cfg (lower ` exclude_langs cfg) rps (start s) = (Exited st, docs)" and
      s': "s' = store (st\<lparr>t_languages := ls\<rparr>) s"
      by (rule get_stats_cases)
    from traversal_exit [OF t] traversal_name [OF t] s' show ?thesis
      by (simp add: store_def)
  qed
  with display_name_chain [of raw nm] show ?thesis by blast
qed

lemma last_page_only:
  "\<exists>s' docs. get_stats cfg0 [Some page_last] init_stats = (Exited s', docs)"
  by (simp add: get_stats_def set_props_def py_sum_def share_def store_def
      page_defs read_defs eval_defs)

theorem display_name_of_last_page_witness:
  "self_name init_stats = JNull \<and>
   (\<exists>s' docs. get_stats cfg0 [Some page_last] init_stats = (Exited s', docs) \<and>
      display_name (query ([Some page_last] ! (length docs - 1))) = Inr (self_name s')) \<and>
   display_name (query (Some page_empty)) = Inr (JStr ''seth'')"
proof -
  have n: "self_name init_stats = JNull" by (simp add: init_stats_def)
  obtain s' docs where g: "get_stats cfg0 [Some page_last] init_stats = (Exited s', docs)"
    using last_page_only by blast
  have v: "viewer (query (Some page_empty)) =
      Inr (JDict [(''login'', JStr ''seth''), (''name'', JNull),
        (''repositories'', collection False JNull []),
        (''repositoriesContributedTo'', collection False JNull [])])"
    by (simp add: viewer_def query_def py_get_def page_empty_def page_def)
  from n g display_name_of_last_page [of init_stats cfg0 "[Some page_last]" s' docs]
  have a: "display_name (query ([Some page_last] ! (length docs - 1))) = Inr (self_name s')"
    by blast
  have b: "display_name (query (Some page_empty)) = Inr (JStr ''seth'')"
    using display_name_of_last_page [of init_stats cfg0 "[]" init_stats "[]"
        "query (Some page_empty)" "JStr ''seth''"] v
    by (simp add: is_dict_def lookup_def)
  from n g a b show ?thesis by blast
qed

text \<open>
  Claim C8 as stated fails: with three replies whose viewer names are \<open>First\<close>,
  \<open>Second\<close> and \<open>Third\<close>, the accessor \<open>name\<close> returns \<open>Third\<close>, not the name of the
  first page.
\<close>

theorem name_of_first_page_counterexample:
  "display_name (query (Some page_one)) = Inr (JStr ''First'') \<and>
   returned (fst (name cfg0 [Some page_one, Some page_two, Some page_last] init_stats))
     = Some (JStr ''Third'')"
  by (simp add: name_def accessor_def name_opt_def returned_def get_stats_def set_props_def
      py_sum_def share_def store_def page_defs read_defs eval_defs)

section \<open>Proofs: order of the gathered results\<close>


















section \<open>Proofs: proportional shares\<close>

lemma int_iadd_Inr: "int_iadd n v = Inr m \<longleftrightarrow> (\<exists>x. num_of v = Some x \<and> m = n + x)"
  by (auto simp: int_iadd_def split: option.splits)

lemma py_sum_from:
  "efold (\<lambda>v acc. int_iadd acc v) vs a = Inr T \<Longrightarrow>
   (\<forall>v \<in> set vs. \<exists>x. num_of v = Some x) \<and> T = a + sum_list (map (\<lambda>v. the (num_of v)) vs)"
proof (induction vs arbitrary: a)
  case Nil
  then show ?case by simp
next
  case (Cons v vs)
  from Cons.prems obtain x where x: "num_of v = Some x"
    and r: "efold (\<lambda>v acc. int_iadd acc v) vs (a + x) = Inr T"
    by (auto simp: ebind_eq_Inr int_iadd_Inr)
  from Cons.IH [OF r] x show ?case by simp
qed

lemma py_sum_Inr:
  "py_sum vs = Inr T \<Longrightarrow>
   (\<forall>v \<in> set vs. \<exists>x. num_of v = Some x) \<and> T = sum_list (map (\<lambda>v. the (num_of v)) vs)"
  unfolding py_sum_def using py_sum_from [of vs 0 T] by simp

lemma share_Inr:
  "share T sz = Inr p \<Longrightarrow>
   p = (if 0 < T then 100 * (of_int (the (num_of sz)) / of_int T) else 0)"
  by (auto simp: share_def split: if_splits option.splits)

lemma set_props_loop:
  "efold (\<lambda>kv acc. ebind (share T (lang_size (snd kv)))
            (\<lambda>p. Inr (acc @ [(fst kv, (snd kv)\<lparr>lang_prop := Some p\<rparr>)]))) ls acc0 = Inr r \<Longrightarrow>
   r = acc0 @ map (\<lambda>kv. (fst kv, (snd kv)\<lparr>lang_prop :=
         Some (if 0 < T then 100 * (of_int (the (num_of (lang_size (snd kv)))) / of_int T)
               else 0)\<rparr>)) ls"
proof (induction ls arbitrary: acc0)
  case Nil
  then show ?case by simp
next
  case (Cons kv ls)
  from Cons.prems obtain p where p: "share T (lang_size (snd kv)) = Inr p"
    and r: "efold (\<lambda>kv acc. ebind (share T (lang_size (snd kv)))
            (\<lambda>p. Inr (acc @ [(fst kv, (snd kv)\<lparr>lang_prop := Some p\<rparr>)]))) ls
            (acc0 @ [(fst kv, (snd kv)\<lparr>lang_prop := Some p\<rparr>)]) = Inr r"
    by (auto simp: ebind_eq_Inr)
  from Cons.IH [OF r] share_Inr [OF p] show ?case by simp
qed

lemma set_props_Inr:
  assumes "set_props ls = Inr ls'"
  shows "\<exists>T. py_sum (map (\<lambda>kv. lang_size (snd kv)) ls) = Inr T \<and>
     ls' = map (\<lambda>kv. (fst kv, (snd kv)\<lparr>lang_prop :=
         Some (if 0 < T then 100 * (of_int (the (num_of (lang_size (snd kv)))) / of_int T)
               else 0)\<rparr>)) ls"
  using assms set_props_loop [of _ ls "[]" ls']
  by (auto simp: set_props_def ebind_eq_Inr)

lemma sum_list_shares:
  fixes T :: int
  assumes "T = sum_list (map f ls)" "0 < T"
  shows "sum_list (map (\<lambda>kv. 100 * (of_int (f kv) / of_int T)) ls) = (100 :: rat)"
proof -
  have "sum_list (map (\<lambda>kv. 100 * (of_int (f kv) / of_int T)) ls)
        = (100 / of_int T) * sum_list (map (\<lambda>kv. (of_int (f kv) :: rat)) ls)"
    by (induction ls) (simp_all add: distrib_left)
  also have "sum_list (map (\<lambda>kv. (of_int (f kv) :: rat)) ls) = of_int (sum_list (map f ls))"
    by (induction ls) simp_all
  also have "\<dots> = of_int T" using assms(1) by simp
  finally show ?thesis using assms(2) by simp
qed

lemma set_props_shares:
  assumes "set_props ls = Inr ls'"
  shows "\<exists>T. py_sum (map (\<lambda>kv. lang_size (snd kv)) ls') = Inr T \<and>
     (0 < T \<longrightarrow>
        (\<forall>kv \<in> set ls'. \<exists>x. num_of (lang_size (snd kv)) = Some x \<and>
            lang_prop (snd kv) = Some (100 * (of_int x / of_int T))) \<and>
        sum_list (map snd (props ls')) = 100) \<and>
     (T \<le> 0 \<longrightarrow> (\<forall>kv \<in> set ls'. lang_prop (snd kv) = Some 0) \<and>
        (\<forall>kp \<in> set (props ls'). snd kp = 0))"
proof -
  from set_props_Inr [OF assms] obtain T where
    T: "py_sum (map (\<lambda>kv. lang_size (snd kv)) ls) = Inr T" and
    ls': "ls' = map (\<lambda>kv. (fst kv, (snd kv)\<lparr>lang_prop :=
         Some (if 0 < T then 100 * (of_int (the (num_of (lang_size (snd kv)))) / of_int T)
               else 0)\<rparr>)) ls"
    by blast
  have same: "map (\<lambda>kv. lang_size (snd kv)) ls' = map (\<lambda>kv. lang_size (snd kv)) ls"
    unfolding ls' by (simp add: comp_def)
  from py_sum_Inr [OF T] have num: "\<forall>kv \<in> set ls. \<exists>x. num_of (lang_size (snd kv)) = Some x"
    and sum: "T = sum_list (map (\<lambda>kv. the (num_of (lang_size (snd kv)))) ls)"
    by (simp_all add: comp_def)
  have pos: "(\<forall>kv \<in> set ls'. \<exists>x. num_of (lang_size (snd kv)) = Some x \<and>
            lang_prop (snd kv) = Some (100 * (of_int x / of_int T))) \<and>
        sum_list (map snd (props ls')) = 100" if "0 < T"
  proof
    show "\<forall>kv \<in> set ls'. \<exists>x. num_of (lang_size (snd kv)) = Some x \<and>
            lang_prop (snd kv) = Some (100 * (of_int x / of_int T))"
      unfolding ls' using num that by auto
    have "map snd (props ls')
          = map (\<lambda>kv. 100 * (of_int (the (num_of (lang_size (snd kv)))) / of_int T)) ls"
      unfolding ls' props_def using that by (simp add: comp_def)
    then show "sum_list (map snd (props ls')) = 100"
      using sum_list_shares [OF sum that] by simp
  qed
  have zero: "(\<forall>kv \<in> set ls'. lang_prop (snd kv) = Some 0) \<and>
        (\<forall>kp \<in> set (props ls'). snd kp = 0)" if "T \<le> 0"
    unfolding ls' props_def using that by auto
  from T same pos zero show ?thesis by auto
qed

text \<open>
  Claim C4. After a traversal by \<open>get_stats\<close>, let \<open>T\<close> be the sum of the sizes in the
  language mapping. If \<open>T > 0\<close>, every entry's share is \<open>100 * (size / T)\<close> and the
  shares, which \<open>languages_proportional\<close> returns, sum to exactly 100. If \<open>T\<close> is 0 (or,
  with negative sizes in a reply, below 0), every share is 0. The quotients are exact
  rationals, not Python's floats.
\<close>

theorem proportional_shares:
  "self_name s = JNull \<and> get_stats cfg rps s = (Exited s', docs) \<longrightarrow>
     (\<exists>ls T. self_languages s' = Some ls \<and>
        returned (fst (languages_proportional cfg rps2 s')) = Some (props ls) \<and>
        py_sum (map (\<lambda>kv. lang_size (snd kv)) ls) = Inr T \<and>
        (0 < T \<longrightarrow>
           (\<forall>kv \<in> set ls. \<exists>x. num_of (lang_size (snd kv)) = Some x \<and>
               lang_prop (snd kv) = Some (100 * (of_int x / of_int T))) \<and>
           sum_list (map snd (props ls)) = 100) \<and>
        (T \<le> 0 \<longrightarrow> (\<forall>kv \<in> set ls. lang_prop (snd kv) = Some 0) \<and>
           (\<forall>kp \<in> set (props ls). snd kp = 0)))"
proof
  assume a: "self_name s = JNull \<and> get_stats cfg rps s = (Exited s', docs)"
  then obtain st ls where
    p: "set_props (t_languages st) = Inr ls" and s': "s' = store (st\<lparr>t_languages := ls\<rparr>) s"
    by (elim conjE get_stats_cases)
  from s' have l: "self_languages s' = Some ls" by (simp add: store_def)
  then have r: "returned (fst (languages_proportional cfg rps2 s')) = Some (props ls)"
    by (simp add: languages_proportional_def accessor_def returned_def)
  from set_props_shares [OF p] l r
  show "\<exists>ls T. self_languages s' = Some ls \<and>
        returned (fst (languages_proportional cfg rps2 s')) = Some (props ls) \<and>
        py_sum (map (\<lambda>kv. lang_size (snd kv)) ls) = Inr T \<and>
        (0 < T \<longrightarrow>
           (\<forall>kv \<in> set ls. \<exists>x. num_of (lang_size (snd kv)) = Some x \<and>
               lang_prop (snd kv) = Some (100 * (of_int x / of_int T))) \<and>
           sum_list (map snd (props ls)) = 100) \<and>
        (T \<le> 0 \<longrightarrow> (\<forall>kv \<in> set ls. lang_prop (snd kv) = Some 0) \<and>
           (\<forall>kp \<in> set (props ls). snd kp = 0))"
    by blast
qed

lemmas stats_defs = get_stats_def set_props_def py_sum_def share_def store_def

lemma go_ts_run:
  "\<exists>s' docs. get_stats cfg0 [Some page_go_ts] init_stats = (Exited s', docs) \<and>
     self_languages s' =
       Some [(''Go'', \<lparr>lang_size = JInt 800, lang_occurrences = 1, lang_color = JNull,
                      lang_prop = Some 80\<rparr>),
             (''TS'', \<lparr>lang_size = JInt 200, lang_occurrences = 1, lang_color = JNull,
                      lang_prop = Some 20\<rparr>)]"
  by (simp add: stats_defs page_go_ts_def page_defs read_defs eval_defs)

lemma zero_run:
  "\<exists>s' docs. get_stats cfg0 [Some page_zero] init_stats = (Exited s', docs) \<and>
     self_languages s' =
       Some [(''Go'', \<lparr>lang_size = JInt 0, lang_occurrences = 1, lang_color = JNull,
                      lang_prop = Some 0\<rparr>)]"
  by (simp add: stats_defs page_zero_def page_defs read_defs eval_defs)

theorem proportional_shares_witness:
  "self_name init_stats = JNull \<and>
   (\<exists>s' docs. get_stats cfg0 [Some page_go_ts] init_stats = (Exited s', docs) \<and>
      returned (fst (languages_proportional cfg0 [] s')) = Some [(''Go'', 80), (''TS'', 20)] \<and>
      (\<exists>ls. self_languages s' = Some ls \<and> sum_list (map snd (props ls)) = 100)) \<and>
   (\<exists>s' docs. get_stats cfg0 [Some page_zero] init_stats = (Exited s', docs) \<and>
      returned (fst (languages_proportional cfg0 [] s')) = Some [(''Go'', 0)])"
proof -
  have n: "self_name init_stats = JNull" by (simp add: init_stats_def)
  obtain s1 d1 where g1: "get_stats cfg0 [Some page_go_ts] init_stats = (Exited s1, d1)"
    and l1: "self_languages s1 =
       Some [(''Go'', \<lparr>lang_size = JInt 800, lang_occurrences = 1, lang_color = JNull,
                      lang_prop = Some 80\<rparr>),
             (''TS'', \<lparr>lang_size = JInt 200, lang_occurrences = 1, lang_color = JNull,
                      lang_prop = Some 20\<rparr>)]"
    using go_ts_run by blast
  from n g1 proportional_shares [of init_stats cfg0 "[Some page_go_ts]" s1 d1 "[]"]
  obtain ls T where
    a: "self_languages s1 = Some ls"
       "returned (fst (languages_proportional cfg0 [] s1)) = Some (props ls)"
       "py_sum (map (\<lambda>kv. lang_size (snd kv)) ls) = Inr T"
       "0 < T \<longrightarrow> sum_list (map snd (props ls)) = 100"
    by blast
  from a(1) l1 have ls: "ls = [(''Go'', \<lparr>lang_size = JInt 800, lang_occurrences = 1,
        lang_color = JNull, lang_prop = Some 80\<rparr>),
      (''TS'', \<lparr>lang_size = JInt 200, lang_occurrences = 1, lang_color = JNull,
        lang_prop = Some 20\<rparr>)]"
    by simp
  from a(3) have "T = 1000" unfolding ls by (simp add: py_sum_def int_iadd_def)
  with a(4) have hundred: "sum_list (map snd (props ls)) = 100" by simp
  from a(2) have r1: "returned (fst (languages_proportional cfg0 [] s1))
      = Some [(''Go'', 80), (''TS'', 20)]"
    unfolding ls by (simp add: props_def)
  obtain s2 d2 where g2: "get_stats cfg0 [Some page_zero] init_stats = (Exited s2, d2)"
    and l2: "self_languages s2 =
       Some [(''Go'', \<lparr>lang_size = JInt 0, lang_occurrences = 1, lang_color = JNull,
                      lang_prop = Some 0\<rparr>)]"
    using zero_run by blast
  from n g2 proportional_shares [of init_stats cfg0 "[Some page_zero]" s2 d2 "[]"]
  obtain ls2 T2 where
    b: "self_languages s2 = Some ls2"
       "returned (fst (languages_proportional cfg0 [] s2)) = Some (props ls2)"
       "py_sum (map (\<lambda>kv. lang_size (snd kv)) ls2) = Inr T2"
       "T2 \<le> 0 \<longrightarrow> (\<forall>kp \<in> set (props ls2). snd kp = 0)"
    by blast
  from b(1) l2 have ls2: "ls2 = [(''Go'', \<lparr>lang_size = JInt 0, lang_occurrences = 1,
        lang_color = JNull, lang_prop = Some 0\<rparr>)]"
    by simp
  from b(3) have "T2 = 0" unfolding ls2 by (simp add: py_sum_def int_iadd_def)
  with b(4) have "\<forall>kp \<in> set (props ls2). snd kp = 0" by simp
  with b(2) have r2: "returned (fst (languages_proportional cfg0 [] s2)) = Some [(''Go'', 0)]"
    unfolding ls2 by (simp add: props_def)
  from n g1 r1 a(1) hundred g2 r2 show ?thesis by blast
qed

section \<open>Proofs: pagination\<close>

lemma at_path_empty: "ks \<noteq> [] \<Longrightarrow> at_path (JDict []) ks = None"
  by (cases ks) (simp_all add: lookup_def)

lemma py_get_path:
  "py_get v k (JDict []) = Inr w \<Longrightarrow> ks \<noteq> [] \<Longrightarrow> at_path w ks = at_path v (k # ks)"
  by (auto simp: py_get_def lookup_def at_path_empty split: json.splits option.splits)

lemma query_path: "ks \<noteq> [] \<Longrightarrow> at_path (query r) ks = in_reply r ks"
  by (cases ks) (auto simp: query_def in_reply_def lookup_def split: option.splits)

lemma viewer_path:
  assumes "viewer (query r) = Inr v" 
  shows "at_path v (k # ks) = in_reply r (''data'' # ''viewer'' # k # ks)"
proof -
  from assms obtain d where d: "py_get (query r) ''data'' (JDict []) = Inr d"
    and v: "py_get d ''viewer'' (JDict []) = Inr v"
    by (auto simp: viewer_def ebind_eq_Inr)
  have "at_path v (k # ks) = at_path d (''viewer'' # k # ks)"
    using py_get_path [OF v, of "k # ks"] by simp
  also have "\<dots> = at_path (query r) (''data'' # ''viewer'' # k # ks)"
    using py_get_path [OF d, of "''viewer'' # k # ks"] by simp
  also have "\<dots> = in_reply r (''data'' # ''viewer'' # k # ks)"
    by (rule query_path) simp
  finally show ?thesis .
qed

lemma owned_repos_path:
  assumes "owned_repos (query r) = Inr c" "ks \<noteq> []"
  shows "at_path c ks = in_reply r (owned_path @ ks)"
proof -
  from assms obtain v where v: "viewer (query r) = Inr v"
    and c: "py_get v ''repositories'' (JDict []) = Inr c"
    by (auto simp: owned_repos_def ebind_eq_Inr)
  from py_get_path [OF c assms(2)] viewer_path [OF v, of "''repositories''" ks]
  show ?thesis by (simp add: owned_path_def)
qed

lemma contrib_repos_path:
  assumes "contrib_repos (query r) = Inr c" "ks \<noteq> []"
  shows "at_path c ks = in_reply r (contrib_path @ ks)"
proof -
  from assms obtain v where v: "viewer (query r) = Inr v"
    and c: "py_get v ''repositoriesContributedTo'' (JDict []) = Inr c"
    by (auto simp: contrib_repos_def ebind_eq_Inr)
  from py_get_path [OF c assms(2)] viewer_path [OF v, of "''repositoriesContributedTo''" ks]
  show ?thesis by (simp add: contrib_path_def)
qed

lemma py_get_at:
  "py_get v k d = Inr w \<Longrightarrow> w = pick (at_path v [k]) d"
  by (auto simp: py_get_def lookup_def pick_def split: json.splits option.splits)

lemma page_info_get:
  assumes "page_info c = Inr info" "py_get info k d = Inr w"
  shows "w = pick (at_path c [''pageInfo'', k]) d"
proof -
  from assms(1) have "at_path info [k] = at_path c [''pageInfo'', k]"
    unfolding page_info_def using py_get_path [of c "''pageInfo''" info "[k]"] by simp
  with py_get_at [OF assms(2)] show ?thesis by simp
qed

lemma has_next_page_further:
  assumes "has_next_page owned contrib = Inr b"
    "owned_repos (query r) = Inr owned" "contrib_repos (query r) = Inr contrib"
  shows "b = further_page r"
proof -
  from assms(1) obtain info h where i: "page_info owned = Inr info"
    and h: "py_get info ''hasNextPage'' (JBool False) = Inr h"
    and rest: "(if truthy h then Inr True
       else ebind (page_info contrib) (\<lambda>pc.
            ebind (py_get pc ''hasNextPage'' (JBool False)) (\<lambda>h'. Inr (truthy h')))) = Inr b"
    by (auto simp: has_next_page_def ebind_eq_Inr)
  have ho: "truthy h = has_next r owned_path"
    using page_info_get [OF i h] owned_repos_path [OF assms(2), of "[''pageInfo'', ''hasNextPage'']"]
    by (auto simp: has_next_def pick_def split: option.splits)
  show ?thesis
  proof (cases "truthy h")
    case True
    with rest ho show ?thesis by (simp add: further_page_def)
  next
    case False
    with rest obtain pc h' where pc: "page_info contrib = Inr pc"
      and h': "py_get pc ''hasNextPage'' (JBool False) = Inr h'" and b: "b = truthy h'"
      by (auto simp: ebind_eq_Inr)
    have "truthy h' = has_next r contrib_path"
      using page_info_get [OF pc h']
        contrib_repos_path [OF assms(3), of "[''pageInfo'', ''hasNextPage'']"]
      by (auto simp: has_next_def pick_def split: option.splits)
    with False ho b show ?thesis by (simp add: further_page_def)
  qed
qed

lemma reports_next_further: "reports_next r = Inr b \<Longrightarrow> b = further_page r"
  by (auto simp: reports_next_def ebind_eq_Inr dest: has_next_page_further)

lemma loop_body_further:
  assumes "loop_body cfg ex (query r) st = Inr (again, st')"
  shows "again = further_page r"
  using loop_body_again [OF assms] by (rule reports_next_further)

lemma loop_body_next_cursors:
  assumes "loop_body cfg ex (query r) st = Inr (True, st')"
  shows "(next_owned st', next_contrib st') = next_cursors r (next_owned st, next_contrib st)"
proof -
  from assms obtain nm contrib owned items st1 oi no pc nc where
    c: "contrib_repos (query r) = Inr contrib" and
    ow: "owned_repos (query r) = Inr owned" and
    f: "efold (fold_repo cfg ex) items (st\<lparr>t_name := nm\<rparr>) = Inr st1" and
    oi: "page_info owned = Inr oi" and no: "py_get oi ''endCursor'' (next_owned st1) = Inr no" and
    pc: "page_info contrib = Inr pc" and nc: "py_get pc ''endCursor'' (next_contrib st1) = Inr nc"
    and st': "st' = st1\<lparr>next_owned := no, next_contrib := nc\<rparr>"
    by (elim loop_body_cases) auto
  from fold_repos_cursors [OF f]
  have k: "next_owned st1 = next_owned st" "next_contrib st1 = next_contrib st" by simp_all
  from page_info_get [OF oi no] owned_repos_path [OF ow, of "[''pageInfo'', ''endCursor'']"]
  have 1: "no = pick (end_cursor r owned_path) (next_owned st)"
    by (simp add: end_cursor_def k)
  from page_info_get [OF pc nc] contrib_repos_path [OF c, of "[''pageInfo'', ''endCursor'']"]
  have 2: "nc = pick (end_cursor r contrib_path) (next_contrib st)"
    by (simp add: end_cursor_def k)
  from 1 2 st' show ?thesis by (simp add: next_cursors_def)
qed


lemma pick_simps [simp]: "pick (Some x) d = x" "pick None d = d"
  by (simp_all add: pick_def)

lemma wf_empty [simp]: "wf_collection (JDict [])" "wf_viewer (JDict [])"
  by (simp_all add: wf_collection_def wf_viewer_def is_dict_def lookup_def absent_or_def)

lemma py_get_total:
  "is_dict v \<Longrightarrow> py_get v k d = Inr (pick (lookup v k) d)"
  by (auto simp: is_dict_def py_get_def lookup_def pick_def split: json.splits option.splits)

lemma absent_or_pick: "absent_or P v \<Longrightarrow> P d \<Longrightarrow> P (pick v d)"
  by (auto simp: absent_or_def pick_def split: option.splits)

lemma wf_reply_viewer:
  assumes "wf_reply r"
  shows "\<exists>v. viewer (query r) = Inr v \<and> wf_viewer v"
proof -
  have q: "query r = JDict [] \<or>
    (is_dict (query r) \<and>
     absent_or (\<lambda>d. is_dict d \<and> absent_or wf_viewer (lookup d ''viewer''))
       (lookup (query r) ''data''))"
    using assms by (auto simp: wf_reply_def query_def split: option.splits)
  have e: "is_dict (JDict []) \<and> absent_or wf_viewer (lookup (JDict []) ''viewer'')"
    by (simp add: is_dict_def lookup_def absent_or_def)
  from q have d: "is_dict (query r)"
    and a: "absent_or (\<lambda>d. is_dict d \<and> absent_or wf_viewer (lookup d ''viewer''))
       (lookup (query r) ''data'')"
    by (auto simp: is_dict_def lookup_def absent_or_def)
  let ?d = "pick (lookup (query r) ''data'') (JDict [])"
  from absent_or_pick [OF a e]
  have dd: "is_dict ?d" and av: "absent_or wf_viewer (lookup ?d ''viewer'')" by simp_all
  from absent_or_pick [OF av wf_empty(2)]
  have "wf_viewer (pick (lookup ?d ''viewer'') (JDict []))" .
  moreover have "viewer (query r) = Inr (pick (lookup ?d ''viewer'') (JDict []))"
    by (simp add: viewer_def py_get_total [OF d] py_get_total [OF dd])
  ultimately show ?thesis by blast
qed

lemma wf_reply_collections:
  assumes "wf_reply r"
  shows "\<exists>owned contrib. owned_repos (query r) = Inr owned \<and> contrib_repos (query r) = Inr contrib \<and>
     wf_collection owned \<and> wf_collection contrib"
proof -
  from wf_reply_viewer [OF assms] obtain v where v: "viewer (query r) = Inr v" and w: "wf_viewer v"
    by blast
  from w have d: "is_dict v" and o: "absent_or wf_collection (lookup v ''repositories'')"
    and c: "absent_or wf_collection (lookup v ''repositoriesContributedTo'')"
    by (simp_all add: wf_viewer_def)
  show ?thesis
    using v absent_or_pick [OF o wf_empty(1)] absent_or_pick [OF c wf_empty(1)]
    by (simp add: owned_repos_def contrib_repos_def py_get_total [OF d])
qed

lemma wf_nodes:
  assumes "wf_collection c"
  shows "\<exists>xs. py_get c ''nodes'' (JList []) = Inr (JList xs) \<and> list_all wf_item xs \<and>
     xs = (case at_path c [''nodes''] of Some (JList ys) \<Rightarrow> ys | _ \<Rightarrow> [])"
proof -
  from assms have d: "is_dict c" and n: "absent_or (is_list_of wf_item) (lookup c ''nodes'')"
    by (simp_all add: wf_collection_def)
  have "is_list_of wf_item (JList [])" by (simp add: is_list_of_def)
  from absent_or_pick [OF n this] obtain xs where
    xs: "pick (lookup c ''nodes'') (JList []) = JList xs" and l: "list_all wf_item xs"
    by (auto simp: is_list_of_def split: json.splits)
  from xs have "xs = (case at_path c [''nodes''] of Some (JList ys) \<Rightarrow> ys | _ \<Rightarrow> [])"
    using n by (auto simp: pick_def absent_or_def is_list_of_def split: option.splits json.splits)
  with xs l show ?thesis by (simp add: py_get_total [OF d])
qed

lemma items_of_wf:
  assumes "wf_reply r"
  shows "items_of cfg r =
           Inr (nodes_of r owned_path @
                (if ignore_forked_repos cfg then [] else nodes_of r contrib_path)) \<and>
         list_all wf_item (nodes_of r owned_path @
                (if ignore_forked_repos cfg then [] else nodes_of r contrib_path))"
proof -
  from wf_reply_collections [OF assms] obtain owned contrib where
    ow: "owned_repos (query r) = Inr owned" and c: "contrib_repos (query r) = Inr contrib" and
    wo: "wf_collection owned" and wc: "wf_collection contrib"
    by blast
  from wf_nodes [OF wo] owned_repos_path [OF ow, of "[''nodes'']"]
  have o: "py_get owned ''nodes'' (JList []) = Inr (JList (nodes_of r owned_path))"
    "list_all wf_item (nodes_of r owned_path)"
    by (auto simp: nodes_of_def)
  from wf_nodes [OF wc] contrib_repos_path [OF c, of "[''nodes'']"]
  have n: "py_get contrib ''nodes'' (JList []) = Inr (JList (nodes_of r contrib_path))"
    "list_all wf_item (nodes_of r contrib_path)"
    by (auto simp: nodes_of_def)
  show ?thesis using ow c o n by (simp add: items_of_def page_repos_def)
qed

lemma has_next_page_total:
  assumes "wf_collection owned" "wf_collection contrib"
  shows "\<exists>b. has_next_page owned contrib = Inr b"
proof -
  have i: "\<exists>info. page_info c = Inr info \<and> is_dict info" if "wf_collection c" for c
  proof -
    from that have d: "is_dict c" and
      p: "absent_or (\<lambda>i. is_dict i \<and> absent_or is_cursor (lookup i ''endCursor''))
            (lookup c ''pageInfo'')"
      by (simp_all add: wf_collection_def)
    have "is_dict (JDict []) \<and> absent_or is_cursor (lookup (JDict []) ''endCursor'')"
      by (simp add: is_dict_def lookup_def absent_or_def)
    from absent_or_pick [OF p this] show ?thesis
      by (simp add: page_info_def py_get_total [OF d])
  qed
  from i [OF assms(1)] i [OF assms(2)] show ?thesis
    by (auto simp: has_next_page_def py_get_total)
qed

lemma end_cursor_total:
  assumes "wf_collection c" "is_cursor d"
  shows "\<exists>info w. page_info c = Inr info \<and> py_get info ''endCursor'' d = Inr w \<and> is_cursor w"
proof -
  from assms have dc: "is_dict c" and
    p: "absent_or (\<lambda>i. is_dict i \<and> absent_or is_cursor (lookup i ''endCursor''))
          (lookup c ''pageInfo'')"
    by (simp_all add: wf_collection_def)
  have "is_dict (JDict []) \<and> absent_or is_cursor (lookup (JDict []) ''endCursor'')"
    by (simp add: is_dict_def lookup_def absent_or_def)
  from absent_or_pick [OF p this]
  have di: "is_dict (pick (lookup c ''pageInfo'') (JDict []))"
    and a: "absent_or is_cursor (lookup (pick (lookup c ''pageInfo'') (JDict [])) ''endCursor'')"
    by simp_all
  from absent_or_pick [OF a assms(2)] show ?thesis
    by (simp add: page_info_def py_get_total [OF dc] py_get_total [OF di])
qed

lemma update_set: "p \<in> set (AList.update k v al) \<Longrightarrow> p = (k, v) \<or> p \<in> set al"
  by (induction al) (auto split: if_splits)

lemma is_number_iadd:
  "is_number a \<Longrightarrow> is_number b \<Longrightarrow> \<exists>c. py_iadd a b = Inr c \<and> is_number c"
  by (cases a; cases b) (simp_all add: is_number_def)

lemma is_number_int_iadd: "is_number b \<Longrightarrow> \<exists>m. int_iadd n b = Inr m"
  by (cases b) (simp_all add: is_number_def int_iadd_def)

lemma fold_lang_wf:
  assumes "wf_edge e" "list_all (\<lambda>kv. is_number (lang_size (snd kv))) ls"
  shows "\<exists>ls'. fold_lang ex e ls = Inr ls' \<and> list_all (\<lambda>kv. is_number (lang_size (snd kv))) ls'"
proof -
  from assms(1) have de: "is_dict e" and sz: "absent_or is_number (lookup e ''size'')" and
    nd: "absent_or (\<lambda>n. is_dict n \<and> absent_or is_string (lookup n ''name'')) (lookup e ''node'')"
    by (simp_all add: wf_edge_def)
  let ?node = "pick (lookup e ''node'') (JDict [])"
  have "is_dict (JDict []) \<and> absent_or is_string (lookup (JDict []) ''name'')"
    by (simp add: is_dict_def lookup_def absent_or_def)
  from absent_or_pick [OF nd this]
  have dn: "is_dict ?node" and an: "absent_or is_string (lookup ?node ''name'')" by simp_all
  have "is_string (JStr ''Other'')" by (simp add: is_string_def)
  from absent_or_pick [OF an this] obtain n where
    n: "pick (lookup ?node ''name'') (JStr ''Other'') = JStr n"
    by (auto simp: is_string_def split: json.splits)
  have "is_number (JInt 0)" by (simp add: is_number_def)
  from absent_or_pick [OF sz this] have s: "is_number (pick (lookup e ''size'') (JInt 0))" .
  show ?thesis
  proof (cases "lower n \<in> ex")
    case True
    then show ?thesis using assms(2) n
      by (simp add: fold_lang_def py_get_total [OF de] py_get_total [OF dn] as_str_def)
  next
    case False
    show ?thesis
    proof (cases "map_of ls n")
      case None
      let ?ls = "AList.update n \<lparr>lang_size = pick (lookup e ''size'') (JInt 0),
          lang_occurrences = 1, lang_color = pick (lookup ?node ''color'') JNull,
          lang_prop = None\<rparr> ls"
      have "fold_lang ex e ls = Inr ?ls" using False None n
        by (simp add: fold_lang_def py_get_total [OF de] py_get_total [OF dn] as_str_def)
      moreover have "list_all (\<lambda>kv. is_number (lang_size (snd kv))) ?ls"
        using assms(2) s unfolding list_all_iff by (auto dest!: update_set)
      ultimately show ?thesis by blast
    next
      case (Some v)
      then have "(n, v) \<in> set ls" by (rule map_of_SomeD)
      with assms(2) have "is_number (lang_size v)" unfolding list_all_iff by auto
      from is_number_iadd [OF this s] obtain c where
        c: "py_iadd (lang_size v) (pick (lookup e ''size'') (JInt 0)) = Inr c" "is_number c"
        by blast
      let ?ls = "AList.update n (v\<lparr>lang_size := c, lang_occurrences := lang_occurrences v + 1\<rparr>) ls"
      have "fold_lang ex e ls = Inr ?ls" using False Some n c
        by (simp add: fold_lang_def py_get_total [OF de] py_get_total [OF dn] as_str_def)
      moreover have "list_all (\<lambda>kv. is_number (lang_size (snd kv))) ?ls"
        using assms(2) c(2) unfolding list_all_iff by (auto dest!: update_set)
      ultimately show ?thesis by blast
    qed
  qed
qed

lemma efold_total:
  assumes "\<And>x s. x \<in> set xs \<Longrightarrow> P s \<Longrightarrow> \<exists>s'. f x s = Inr s' \<and> P s'"
  shows "P s \<Longrightarrow> \<exists>s'. efold f xs s = Inr s' \<and> P s'"
  using assms
proof (induction xs arbitrary: s)
  case Nil
  then show ?case by simp
next
  case (Cons x xs)
  from Cons.prems(2) [of x s] Cons.prems(1) obtain s1 where s1: "f x s = Inr s1" "P s1"
    by auto
  from Cons.IH [OF s1(2)] Cons.prems(2) obtain s' where "efold f xs s1 = Inr s'" "P s'"
    by auto
  with s1 show ?case by simp
qed

lemma fold_repo_wf:
  assumes "wf_item r" "wf_state st"
  shows "\<exists>st'. fold_repo cfg ex r st = Inr st' \<and> wf_state st'"
proof (cases "r = JNull")
  case True
  with assms(2) show ?thesis by (simp add: fold_repo_def)
next
  case False
  with assms(1) obtain sg where dr: "is_dict r" and
    nm: "absent_or is_string (lookup r ''nameWithOwner'')" and
    sg: "lookup r ''stargazers'' = Some sg" "is_dict sg"
        "absent_or is_number (lookup sg ''totalCount'')" and
    fc: "absent_or is_number (lookup r ''forkCount'')" and
    la: "absent_or (\<lambda>l. is_dict l \<and> absent_or (is_list_of wf_edge) (lookup l ''edges''))
         (lookup r ''languages'')"
    by (auto simp: wf_item_def split: option.splits)
  have "\<exists>k. py_key (pick (lookup r ''nameWithOwner'') JNull) = Inr k"
    using nm by (auto simp: absent_or_def pick_def is_string_def split: option.splits json.splits)
  then obtain k where k: "py_key (pick (lookup r ''nameWithOwner'') JNull) = Inr k" by blast
  show ?thesis
  proof (cases "k \<in> set (t_repos st) \<or> k \<in> exclude_repos cfg")
    case True
    with False k assms(2) show ?thesis
      by (simp add: fold_repo_def py_get_total [OF dr])
  next
    case new: False
    have z: "is_number (JInt 0)" by (simp add: is_number_def)
    from is_number_int_iadd [OF absent_or_pick [OF sg(3) z]] obtain stars where
      stars: "int_iadd (t_stargazers st) (pick (lookup sg ''totalCount'') (JInt 0)) = Inr stars"
      by blast
    from is_number_int_iadd [OF absent_or_pick [OF fc z]] obtain fks where
      fks: "int_iadd (t_forks st) (pick (lookup r ''forkCount'') (JInt 0)) = Inr fks"
      by blast
    let ?l = "pick (lookup r ''languages'') (JDict [])"
    have "is_dict (JDict []) \<and> absent_or (is_list_of wf_edge) (lookup (JDict []) ''edges'')"
      by (simp add: is_dict_def lookup_def absent_or_def)
    from absent_or_pick [OF la this]
    have dl: "is_dict ?l" and ae: "absent_or (is_list_of wf_edge) (lookup ?l ''edges'')"
      by simp_all
    have "is_list_of wf_edge (JList [])" by (simp add: is_list_of_def)
    from absent_or_pick [OF ae this] obtain es where
      es: "pick (lookup ?l ''edges'') (JList []) = JList es" "list_all wf_edge es"
      by (auto simp: is_list_of_def split: json.splits)
    have "\<exists>langs. efold (fold_lang ex) es (t_languages st) = Inr langs \<and>
            list_all (\<lambda>kv. is_number (lang_size (snd kv))) langs"
      by (rule efold_total [where P = "list_all (\<lambda>kv. is_number (lang_size (snd kv)))"])
         (use es(2) assms(2) in \<open>auto simp: list_all_iff wf_state_def intro!: fold_lang_wf [unfolded list_all_iff]\<close>)
    then obtain langs where
      langs: "efold (fold_lang ex) es (t_languages st) = Inr langs"
        "list_all (\<lambda>kv. is_number (lang_size (snd kv))) langs"
      by blast
    have "fold_repo cfg ex r st =
        Inr (st\<lparr>t_repos := t_repos st @ [k], t_stargazers := stars, t_forks := fks,
                t_languages := langs\<rparr>)"
      using False k new sg(1) stars fks es(1) langs(1)
      by (simp add: fold_repo_def py_get_total [OF dr] py_get_total [OF sg(2)]
          py_get_total [OF dl])
    with langs(2) assms(2) show ?thesis by (simp add: wf_state_def)
  qed
qed

lemma loop_body_wf:
  assumes "wf_reply r" "wf_state st"
  shows "\<exists>again st'. loop_body cfg ex (query r) st = Inr (again, st') \<and> wf_state st'"
proof -
  from wf_reply_collections [OF assms(1)] obtain owned contrib where
    ow: "owned_repos (query r) = Inr owned" and c: "contrib_repos (query r) = Inr contrib" and
    wo: "wf_collection owned" and wc: "wf_collection contrib"
    by blast
  from c obtain nm where nm: "display_name (query r) = Inr nm"
    using display_name_defined by blast
  from items_of_wf [OF assms(1), of cfg] obtain items where
    it: "items_of cfg r = Inr items" and wi: "list_all wf_item items"
    by blast
  from it ow c obtain l where l: "page_repos cfg owned contrib = Inr l" "py_iter l = Inr items"
    by (auto simp: items_of_def ebind_eq_Inr)
  have "wf_state (st\<lparr>t_name := nm\<rparr>)" using assms(2) by (simp add: wf_state_def)
  then have "\<exists>st1. efold (fold_repo cfg ex) items (st\<lparr>t_name := nm\<rparr>) = Inr st1 \<and> wf_state st1"
    by (rule efold_total [where P = wf_state, rotated])
       (use wi in \<open>auto simp: list_all_iff intro: fold_repo_wf\<close>)
  then obtain st1 where
    f: "efold (fold_repo cfg ex) items (st\<lparr>t_name := nm\<rparr>) = Inr st1" and w1: "wf_state st1"
    by blast
  from has_next_page_total [OF wo wc] obtain b where b: "has_next_page owned contrib = Inr b"
    by blast
  from w1 have co: "is_cursor (next_owned st1)" and cc: "is_cursor (next_contrib st1)"
    by (simp_all add: wf_state_def)
  from end_cursor_total [OF wo co] obtain oi no where
    oi: "page_info owned = Inr oi" "py_get oi ''endCursor'' (next_owned st1) = Inr no"
      "is_cursor no"
    by blast
  from end_cursor_total [OF wc cc] obtain pc nc where
    pc: "page_info contrib = Inr pc" "py_get pc ''endCursor'' (next_contrib st1) = Inr nc"
      "is_cursor nc"
    by blast
  have "loop_body cfg ex (query r) st =
     Inr (b, if b then st1\<lparr>next_owned := no, next_contrib := nc\<rparr> else st1)"
    using nm c ow l f b oi pc by (simp add: loop_body_def)
  moreover have "wf_state (if b then st1\<lparr>next_owned := no, next_contrib := nc\<rparr> else st1)"
    using w1 oi(3) pc(3) by (simp add: wf_state_def)
  ultimately show ?thesis by blast
qed


lemma repos_overview_request:
  "is_cursor ow \<Longrightarrow> is_cursor c \<Longrightarrow> repos_overview c ow = Inr (request (ow, c))"
  by (cases ow; cases c)
     (simp_all add: is_cursor_def repos_overview_def cursor_arg_def request_def quoted_def)

lemma loop_body_wf_step:
  assumes "wf_reply r" "wf_state st"
  shows "\<exists>st'. loop_body cfg ex (query r) st = Inr (further_page r, st') \<and> wf_state st' \<and>
     (further_page r \<longrightarrow>
        (next_owned st', next_contrib st') = next_cursors r (next_owned st, next_contrib st))"
proof -
  from loop_body_wf [OF assms] obtain again st' where
    b: "loop_body cfg ex (query r) st = Inr (again, st')" and w: "wf_state st'"
    by blast
  from loop_body_further [OF b] have a: "again = further_page r" .
  with b loop_body_next_cursors [of cfg ex r st st'] w show ?thesis by auto
qed

lemma traversal_wf_awaiting:
  assumes "\<forall>r \<in> set rs. wf_reply r \<and> further_page r" "wf_state st"
  shows "traversal cfg ex rs st =
           (Awaiting, map request (cursors rs (next_owned st, next_contrib st)))"
  using assms
proof (induction rs arbitrary: st)
  case Nil
  then show ?case by (simp add: wf_state_def repos_overview_request)
next
  case (Cons r rs)
  from Cons.prems have doc:
    "repos_overview (next_contrib st) (next_owned st) = Inr (request (next_owned st, next_contrib st))"
    by (simp add: wf_state_def repos_overview_request)
  from Cons.prems have r: "wf_reply r" "further_page r" by simp_all
  from loop_body_wf_step [OF r(1) Cons.prems(2), of cfg ex] r(2) obtain st1 where
    b: "loop_body cfg ex (query r) st = Inr (True, st1)" and w: "wf_state st1" and
    c: "(next_owned st1, next_contrib st1) = next_cursors r (next_owned st, next_contrib st)"
    by auto
  from Cons.prems(1) have "\<forall>r \<in> set rs. wf_reply r \<and> further_page r" by simp
  from Cons.IH [OF this w] doc b c show ?case by simp
qed

lemma traversal_wf_exit:
  assumes "\<forall>r \<in> set rs. wf_reply r \<and> further_page r" "wf_reply r0" "\<not> further_page r0"
    "wf_state st"
  shows "\<exists>st'. traversal cfg ex (rs @ r0 # rest) st =
           (Exited st', map request (cursors rs (next_owned st, next_contrib st)))"
  using assms
proof (induction rs arbitrary: st)
  case Nil
  from Nil.prems have doc:
    "repos_overview (next_contrib st) (next_owned st) = Inr (request (next_owned st, next_contrib st))"
    by (simp add: wf_state_def repos_overview_request)
  from loop_body_wf_step [OF Nil.prems(2) Nil.prems(4), of cfg ex] Nil.prems(3) obtain st1 where
    b: "loop_body cfg ex (query r0) st = Inr (False, st1)"
    by auto
  from doc b show ?case by simp
next
  case (Cons r rs)
  from Cons.prems have doc:
    "repos_overview (next_contrib st) (next_owned st) = Inr (request (next_owned st, next_contrib st))"
    by (simp add: wf_state_def repos_overview_request)
  from Cons.prems have r: "wf_reply r" "further_page r" by simp_all
  from loop_body_wf_step [OF r(1) Cons.prems(4), of cfg ex] r(2) obtain st1 where
    b: "loop_body cfg ex (query r) st = Inr (True, st1)" and w: "wf_state st1" and
    c: "(next_owned st1, next_contrib st1) = next_cursors r (next_owned st, next_contrib st)"
    by auto
  from Cons.prems(1) have "\<forall>r \<in> set rs. wf_reply r \<and> further_page r" by simp
  from Cons.IH [OF this Cons.prems(2,3) w] obtain st' where
    "traversal cfg ex (rs @ r0 # rest) st1 =
       (Exited st', map request (cursors rs (next_owned st1, next_contrib st1)))"
    by blast
  with doc b c show ?case by simp
qed

lemma cursors_length [simp]: "length (cursors rs oc) = length rs + 1"
  by (induction rs arbitrary: oc) simp_all

lemma cursors_stall:
  "\<forall>r \<in> set rs. next_cursors r oc = oc \<Longrightarrow> cursors rs oc = replicate (length rs + 1) oc"
  by (induction rs) simp_all

lemma wf_start [simp]: "wf_state (start s)"
  by (simp add: wf_state_def start_def is_cursor_def)

lemma traversal_exit_further:
  assumes "traversal cfg ex rps st = (Exited st', docs)"
  shows "0 < length docs \<and> length docs \<le> length rps \<and>
     \<not> further_page (rps ! (length docs - 1)) \<and>
     (\<forall>i < length docs - 1. further_page (rps ! i))"
  using traversal_exit [OF assms] reports_next_further by blast

lemma traversal_no_nodes:
  assumes "wf_reply r1" "\<not> further_page r1" "nodes_of r1 owned_path = []"
    "nodes_of r1 contrib_path = []"
  shows "\<exists>nm. traversal cfg ex (r1 # rest) (start s) =
      (Exited ((start s)\<lparr>t_name := nm\<rparr>),
       [\<lparr>after_owned = ''null'', after_contrib = ''null''\<rparr>])"
proof -
  from items_of_wf [OF assms(1), of cfg] assms(3,4) have i: "items_of cfg r1 = Inr []" by simp
  from loop_body_wf_step [OF assms(1) wf_start, of cfg ex s] obtain st' where
    "loop_body cfg ex (query r1) (start s) = Inr (further_page r1, st')"
    by blast
  from loop_body_again [OF this] assms(2) have "reports_next r1 = Inr False" by simp
  with i show ?thesis by (rule traversal_no_items)
qed

text \<open>
  Claim C2, as amended. Take replies of the shape the document asks for. If the first
  \<open>N\<close> of them each report \<open>hasNextPage\<close> in at least one collection and the next one
  reports it in neither, the loop performs exactly \<open>N + 1\<close> fetch rounds and exits in
  round \<open>N + 1\<close>. As long as every reply reports a further page the loop does not exit:
  after \<open>N\<close> such replies it has sent request \<open>N + 1\<close> and waits for the reply. On a first
  reply that lists no nodes and reports no further page the loop makes exactly one
  round, with both cursors \<open>null\<close>, and leaves every total as it was initialised. And
  for replies of any shape: whenever the loop exits, the reply of its last round
  reports a further page in neither collection and the reply of every earlier round
  reports one.
\<close>

theorem fetch_rounds:
  "((\<forall>r \<in> set rs. wf_reply r \<and> further_page r) \<and> wf_reply r0 \<and> \<not> further_page r0 \<longrightarrow>
      (\<exists>st' docs. traversal cfg ex (rs @ r0 # rest) (start s) = (Exited st', docs) \<and>
         length docs = length rs + 1)) \<and>
   ((\<forall>r \<in> set rs. wf_reply r \<and> further_page r) \<longrightarrow>
      (\<exists>docs. traversal cfg ex rs (start s) = (Awaiting, docs) \<and>
         length docs = length rs + 1)) \<and>
   (wf_reply r1 \<and> \<not> further_page r1 \<and> nodes_of r1 owned_path = [] \<and>
    nodes_of r1 contrib_path = [] \<longrightarrow>
      (\<exists>nm. traversal cfg ex (r1 # rest) (start s) =
         (Exited ((start s)\<lparr>t_name := nm\<rparr>),
          [\<lparr>after_owned = ''null'', after_contrib = ''null''\<rparr>]))) \<and>
   (traversal cfg ex rps st = (Exited st', docs) \<longrightarrow>
      0 < length docs \<and> length docs \<le> length rps \<and>
      \<not> further_page (rps ! (length docs - 1)) \<and>
      (\<forall>i < length docs - 1. further_page (rps ! i)))"
proof -
  have 1: "\<exists>st' docs. traversal cfg ex (rs @ r0 # rest) (start s) = (Exited st', docs) \<and>
         length docs = length rs + 1"
    if "\<forall>r \<in> set rs. wf_reply r \<and> further_page r" "wf_reply r0" "\<not> further_page r0"
    using traversal_wf_exit [OF that wf_start, of cfg ex rest s] by auto
  have 2: "\<exists>docs. traversal cfg ex rs (start s) = (Awaiting, docs) \<and>
         length docs = length rs + 1"
    if "\<forall>r \<in> set rs. wf_reply r \<and> further_page r"
    using traversal_wf_awaiting [OF that wf_start, of cfg ex s] by simp
  from 1 2 traversal_no_nodes [of r1 cfg ex rest s]
    traversal_exit_further [of cfg ex rps st st' docs]
  show ?thesis by blast
qed

text \<open>
  Claim C10, as amended. In a round after which the loop goes on, each cursor becomes
  the \<open>endCursor\<close> that its collection reports and keeps its value when the key is
  missing. On replies of the shape the document asks for that each report a further
  page, the requests sent are exactly the documents with these cursors, quoted: the
  request of a round carries for each collection the last \<open>endCursor\<close> reported for it,
  and \<open>null\<close> before any. When no reply changes either cursor, every request is the
  same document and the loop goes on for as many such replies as arrive.
\<close>

theorem cursors_carried_over:
  "(loop_body cfg ex (query r) st = Inr (True, st') \<longrightarrow>
      next_owned st' = pick (end_cursor r owned_path) (next_owned st) \<and>
      next_contrib st' = pick (end_cursor r contrib_path) (next_contrib st)) \<and>
   ((\<forall>r \<in> set rs. wf_reply r \<and> further_page r) \<and> wf_state st \<longrightarrow>
      traversal cfg ex rs st =
        (Awaiting, map request (cursors rs (next_owned st, next_contrib st)))) \<and>
   ((\<forall>r \<in> set rs. wf_reply r \<and> further_page r) \<and> wf_reply r0 \<and> \<not> further_page r0 \<and>
    wf_state st \<longrightarrow>
      (\<exists>st'. traversal cfg ex (rs @ r0 # rest) st =
        (Exited st', map request (cursors rs (next_owned st, next_contrib st))))) \<and>
   ((\<forall>r \<in> set rs. wf_reply r \<and> further_page r \<and>
        next_cursors r (next_owned st, next_contrib st) = (next_owned st, next_contrib st)) \<and>
    wf_state st \<longrightarrow>
      traversal cfg ex rs st =
        (Awaiting, replicate (length rs + 1) (request (next_owned st, next_contrib st))))"
proof -
  have 1: "next_owned st' = pick (end_cursor r owned_path) (next_owned st) \<and>
      next_contrib st' = pick (end_cursor r contrib_path) (next_contrib st)"
    if "loop_body cfg ex (query r) st = Inr (True, st')"
    using loop_body_next_cursors [OF that] by (simp add: next_cursors_def)
  have 4: "traversal cfg ex rs st =
        (Awaiting, replicate (length rs + 1) (request (next_owned st, next_contrib st)))"
    if a: "\<forall>r \<in> set rs. wf_reply r \<and> further_page r \<and>
        next_cursors r (next_owned st, next_contrib st) = (next_owned st, next_contrib st)"
      and w: "wf_state st"
  proof -
    from a have "\<forall>r \<in> set rs. wf_reply r \<and> further_page r" by blast
    from traversal_wf_awaiting [OF this w, of cfg ex] a
    show ?thesis by (simp add: cursors_stall)
  qed
  from 1 4 traversal_wf_awaiting [of rs st cfg ex] traversal_wf_exit [of rs r0 st cfg ex rest]
  show ?thesis by blast
qed


lemmas shape_defs = wf_reply_def wf_viewer_def wf_collection_def wf_item_def wf_edge_def
  absent_or_def is_dict_def is_number_def is_string_def is_cursor_def is_list_of_def lookup_def

lemmas says_defs = further_page_def has_next_def end_cursor_def nodes_of_def in_reply_def
  owned_path_def contrib_path_def lookup_def

lemma example_shapes:
  "wf_reply (Some page_one)" "wf_reply (Some page_two)" "wf_reply (Some page_last)"
  "wf_reply (Some page_empty)" "wf_reply (Some page_stall)"
  by (simp_all add: shape_defs page_defs page_stall_def)

lemma example_further:
  "further_page (Some page_one)" "further_page (Some page_two)"
  "\<not> further_page (Some page_last)" "\<not> further_page (Some page_empty)"
  "further_page (Some page_stall)"
  by (simp_all add: says_defs page_defs page_stall_def)

theorem fetch_rounds_witness:
  "wf_reply (Some page_one) \<and> further_page (Some page_one) \<and>
   wf_reply (Some page_two) \<and> further_page (Some page_two) \<and>
   wf_reply (Some page_last) \<and> \<not> further_page (Some page_last) \<and>
   (\<exists>st' docs. traversal cfg0 {} [Some page_one, Some page_two, Some page_last]
        (start init_stats) = (Exited st', docs) \<and> length docs = 3) \<and>
   (\<exists>docs. traversal cfg0 {} [Some page_one, Some page_two] (start init_stats)
        = (Awaiting, docs) \<and> length docs = 3) \<and>
   wf_reply (Some page_empty) \<and> \<not> further_page (Some page_empty) \<and>
   nodes_of (Some page_empty) owned_path = [] \<and> nodes_of (Some page_empty) contrib_path = [] \<and>
   (\<exists>nm. traversal cfg0 {} [Some page_empty] (start init_stats) =
      (Exited ((start init_stats)\<lparr>t_name := nm\<rparr>),
       [\<lparr>after_owned = ''null'', after_contrib = ''null''\<rparr>])) \<and>
   \<not> further_page ([Some page_empty] ! (1 - 1))"
proof -
  have a: "\<forall>r \<in> set [Some page_one, Some page_two]. wf_reply r \<and> further_page r"
    using example_shapes example_further by simp
  have n: "nodes_of (Some page_empty) owned_path = []"
    "nodes_of (Some page_empty) contrib_path = []"
    by (simp_all add: says_defs page_defs)
  note t = fetch_rounds [of "[Some page_one, Some page_two]" "Some page_last" cfg0 "{}" "[]"
      init_stats "Some page_empty"]
  from t a example_shapes(3) example_further(3)
  have r1: "\<exists>st' docs. traversal cfg0 {} ([Some page_one, Some page_two] @ [Some page_last])
        (start init_stats) = (Exited st', docs) \<and>
        length docs = length [Some page_one, Some page_two] + 1"
    by blast
  from t a
  have r2: "\<exists>docs. traversal cfg0 {} [Some page_one, Some page_two] (start init_stats)
        = (Awaiting, docs) \<and> length docs = length [Some page_one, Some page_two] + 1"
    by blast
  from t example_shapes(4) example_further(4) n obtain nm where
    r3: "traversal cfg0 {} [Some page_empty] (start init_stats) =
      (Exited ((start init_stats)\<lparr>t_name := nm\<rparr>),
       [\<lparr>after_owned = ''null'', after_contrib = ''null''\<rparr>])"
    by blast
  from r3 fetch_rounds [where cfg = cfg0 and ex = "{}" and rps = "[Some page_empty]"
      and st = "start init_stats" and st' = "(start init_stats)\<lparr>t_name := nm\<rparr>"
      and docs = "[\<lparr>after_owned = ''null'', after_contrib = ''null''\<rparr>]"]
  have r4: "\<not> further_page ([Some page_empty] ! (1 - 1))"
    by simp
  have l: "[Some page_one, Some page_two] @ [Some page_last]
      = [Some page_one, Some page_two, Some page_last]"
    by simp
  have len: "length [Some page_one, Some page_two] + 1 = 3" by simp
  from r1 have r1': "\<exists>st' docs. traversal cfg0 {} [Some page_one, Some page_two, Some page_last]
        (start init_stats) = (Exited st', docs) \<and> length docs = 3"
    unfolding l len .
  from r2 have r2': "\<exists>docs. traversal cfg0 {} [Some page_one, Some page_two] (start init_stats)
        = (Awaiting, docs) \<and> length docs = 3"
    unfolding len .
  from example_shapes example_further r1' r2' n r3 r4 show ?thesis by blast
qed

text \<open>
  Claim C2 as stated fails: when each collection yields two pages, the first with a
  next-page token and the second without, the loop performs two fetch rounds, not
  three.
\<close>

theorem two_pages_two_rounds_counterexample:
  "has_next (Some page_one) owned_path \<and> has_next (Some page_one) contrib_path \<and>
   \<not> has_next (Some page_last) owned_path \<and> \<not> has_next (Some page_last) contrib_path \<and>
   traversal cfg0 {} [Some page_one, Some page_last] (start init_stats) =
     (Exited \<lparr>t_name = JStr ''Third'', t_stargazers = 3, t_forks = 1,
        t_languages = [(''Go'', \<lparr>lang_size = JInt 800, lang_occurrences = 1,
                         lang_color = JNull, lang_prop = None\<rparr>)],
        t_repos = [JStr ''a/b''], next_owned = JStr ''o1'', next_contrib = JStr ''c1''\<rparr>,
      [\<lparr>after_owned = ''null'', after_contrib = ''null''\<rparr>,
       \<lparr>after_owned = [CHR 0x22, CHR ''o'', CHR ''1'', CHR 0x22],
        after_contrib = [CHR 0x22, CHR ''c'', CHR ''1'', CHR 0x22]\<rparr>])"
  by (simp add: says_defs page_defs read_defs eval_defs)

theorem cursors_carried_over_witness:
  "(\<exists>st'. loop_body cfg0 {} (query (Some page_one)) (start init_stats) = Inr (True, st') \<and>
      next_owned st' = JStr ''o1'' \<and> next_contrib st' = JStr ''c1'') \<and>
   wf_state (start init_stats) \<and>
   traversal cfg0 {} [Some page_one, Some page_two] (start init_stats) =
     (Awaiting,
      [\<lparr>after_owned = ''null'', after_contrib = ''null''\<rparr>,
       \<lparr>after_owned = [CHR 0x22, CHR ''o'', CHR ''1'', CHR 0x22],
        after_contrib = [CHR 0x22, CHR ''c'', CHR ''1'', CHR 0x22]\<rparr>,
       \<lparr>after_owned = [CHR 0x22, CHR ''o'', CHR ''2'', CHR 0x22],
        after_contrib = ''null''\<rparr>]) \<and>
   (\<exists>st'. traversal cfg0 {} [Some page_one, Some page_two, Some page_last] (start init_stats) =
     (Exited st',
      [\<lparr>after_owned = ''null'', after_contrib = ''null''\<rparr>,
       \<lparr>after_owned = [CHR 0x22, CHR ''o'', CHR ''1'', CHR 0x22],
        after_contrib = [CHR 0x22, CHR ''c'', CHR ''1'', CHR 0x22]\<rparr>,
       \<lparr>after_owned = [CHR 0x22, CHR ''o'', CHR ''2'', CHR 0x22],
        after_contrib = ''null''\<rparr>])) \<and>
   traversal cfg0 {} [Some page_stall, Some page_stall] (start init_stats) =
     (Awaiting, [\<lparr>after_owned = ''null'', after_contrib = ''null''\<rparr>,
                 \<lparr>after_owned = ''null'', after_contrib = ''null''\<rparr>,
                 \<lparr>after_owned = ''null'', after_contrib = ''null''\<rparr>])"
proof -
  have w: "wf_state (start init_stats)"
    by (simp add: wf_state_def start_def is_cursor_def)
  have s: "next_owned (start init_stats) = JNull" "next_contrib (start init_stats) = JNull"
    by (simp_all add: start_def)
  have a: "\<forall>r \<in> set [Some page_one, Some page_two]. wf_reply r \<and> further_page r"
    using example_shapes example_further by simp
  have c: "map request (cursors [Some page_one, Some page_two] (JNull, JNull)) =
      [\<lparr>after_owned = ''null'', after_contrib = ''null''\<rparr>,
       \<lparr>after_owned = [CHR 0x22, CHR ''o'', CHR ''1'', CHR 0x22],
        after_contrib = [CHR 0x22, CHR ''c'', CHR ''1'', CHR 0x22]\<rparr>,
       \<lparr>after_owned = [CHR 0x22, CHR ''o'', CHR ''2'', CHR 0x22],
        after_contrib = ''null''\<rparr>]"
    by (simp add: next_cursors_def pick_def says_defs page_defs request_def quoted_def)
  have l: "[Some page_one, Some page_two] @ [Some page_last]
      = [Some page_one, Some page_two, Some page_last]"
    by simp
  have rep: "replicate (length [Some page_stall, Some page_stall] + 1) (request (JNull, JNull))
      = [\<lparr>after_owned = ''null'', after_contrib = ''null''\<rparr>,
         \<lparr>after_owned = ''null'', after_contrib = ''null''\<rparr>,
         \<lparr>after_owned = ''null'', after_contrib = ''null''\<rparr>]"
    by (simp add: request_def quoted_def numeral_3_eq_3)
  have st: "\<forall>r \<in> set [Some page_stall, Some page_stall]. wf_reply r \<and> further_page r \<and>
      next_cursors r (next_owned (start init_stats), next_contrib (start init_stats))
        = (next_owned (start init_stats), next_contrib (start init_stats))"
    using example_shapes(5) example_further(5)
    by (simp add: s next_cursors_def pick_def says_defs page_stall_def page_defs)
  obtain st1 where b: "loop_body cfg0 {} (query (Some page_one)) (start init_stats) = Inr (True, st1)"
    using page_one_goes_on by blast
  note t = cursors_carried_over [of cfg0 "{}" "Some page_one" "start init_stats" st1
      "[Some page_one, Some page_two]" "Some page_last" "[]"]
  from t b have "next_owned st1 = pick (end_cursor (Some page_one) owned_path) (next_owned (start init_stats)) \<and>
      next_contrib st1 = pick (end_cursor (Some page_one) contrib_path) (next_contrib (start init_stats))"
    by blast
  then have r1: "next_owned st1 = JStr ''o1'' \<and> next_contrib st1 = JStr ''c1''"
    by (simp add: pick_def says_defs page_defs)
  from t a w have "traversal cfg0 {} [Some page_one, Some page_two] (start init_stats) =
     (Awaiting, map request (cursors [Some page_one, Some page_two]
        (next_owned (start init_stats), next_contrib (start init_stats))))"
    by blast
  then have r2: "traversal cfg0 {} [Some page_one, Some page_two] (start init_stats) =
     (Awaiting,
      [\<lparr>after_owned = ''null'', after_contrib = ''null''\<rparr>,
       \<lparr>after_owned = [CHR 0x22, CHR ''o'', CHR ''1'', CHR 0x22],
        after_contrib = [CHR 0x22, CHR ''c'', CHR ''1'', CHR 0x22]\<rparr>,
       \<lparr>after_owned = [CHR 0x22, CHR ''o'', CHR ''2'', CHR 0x22],
        after_contrib = ''null''\<rparr>])"
    unfolding s c l .
  from t a w example_shapes(3) example_further(3)
  have "\<exists>st'. traversal cfg0 {} ([Some page_one, Some page_two] @ [Some page_last])
       (start init_stats) =
     (Exited st', map request (cursors [Some page_one, Some page_two]
        (next_owned (start init_stats), next_contrib (start init_stats))))"
    by blast
  then have r3: "\<exists>st'. traversal cfg0 {} [Some page_one, Some page_two, Some page_last]
       (start init_stats) =
     (Exited st',
      [\<lparr>after_owned = ''null'', after_contrib = ''null''\<rparr>,
       \<lparr>after_owned = [CHR 0x22, CHR ''o'', CHR ''1'', CHR 0x22],
        after_contrib = [CHR 0x22, CHR ''c'', CHR ''1'', CHR 0x22]\<rparr>,
       \<lparr>after_owned = [CHR 0x22, CHR ''o'', CHR ''2'', CHR 0x22],
        after_contrib = ''null''\<rparr>])"
    unfolding s c l .
  from cursors_carried_over [of cfg0 "{}" "Some page_one" "start init_stats" st1
      "[Some page_stall, Some page_stall]" "Some page_last" "[]"] st w
  have "traversal cfg0 {} [Some page_stall, Some page_stall] (start init_stats) =
     (Awaiting, replicate (length [Some page_stall, Some page_stall] + 1)
        (request (next_owned (start init_stats), next_contrib (start init_stats))))"
    by blast
  then have r4: "traversal cfg0 {} [Some page_stall, Some page_stall] (start init_stats) =
     (Awaiting, [\<lparr>after_owned = ''null'', after_contrib = ''null''\<rparr>,
                 \<lparr>after_owned = ''null'', after_contrib = ''null''\<rparr>,
                 \<lparr>after_owned = ''null'', after_contrib = ''null''\<rparr>])"
    unfolding s rep .
  from b r1 w r2 r3 r4 show ?thesis by blast
qed

text \<open>
  Claim C10 as stated fails in its last part: while the owned collection keeps
  reporting \<open>hasNextPage\<close> without an \<open>endCursor\<close>, the contributed collection's cursor
  can still move, and then the three requests sent are three different documents.
\<close>

theorem stalled_collection_counterexample:
  "has_next (Some page_stall_c1) owned_path \<and>
   end_cursor (Some page_stall_c1) owned_path = None \<and>
   has_next (Some page_stall_c2) owned_path \<and>
   end_cursor (Some page_stall_c2) owned_path = None \<and>
   traversal cfg0 {} [Some page_stall_c1, Some page_stall_c2] (start init_stats) =
     (Awaiting,
      [\<lparr>after_owned = ''null'', after_contrib = ''null''\<rparr>,
       \<lparr>after_owned = ''null'', after_contrib = [CHR 0x22, CHR ''c'', CHR ''1'', CHR 0x22]\<rparr>,
       \<lparr>after_owned = ''null'', after_contrib = [CHR 0x22, CHR ''c'', CHR ''2'', CHR 0x22]\<rparr>])"
  by (simp add: says_defs page_stall_c1_def page_stall_c2_def page_defs read_defs eval_defs)

end
